theory Spec2Isabelle
  imports Complex_Main "HOL-Library.Word"
begin

unbundle bit_operations_syntax

section \<open>JavaScript values\<close>

text \<open>
  A JavaScript string is a sequence of UTF-16 code units; \<open>charCodeAt\<close> reads one as a
  number. A "binary string" of the steganography service (a string over the characters
  0 and 1) is a list of bits, \<open>True\<close> for the character 1. The pixel data of a canvas
  (\<open>Uint8ClampedArray\<close>) is a list of bytes, four per pixel (R, G, B, A).
\<close>

type_synonym jsstring = "nat list"
type_synonym bits = "bool list"
type_synonym bytes = "8 word list"

definition js :: "string \<Rightarrow> jsstring" where
  "js s = map of_char s"

text \<open>
  The values the service handles after \<open>JSON.parse\<close>: \<open>Undefined\<close> is what reading
  a missing property gives.
\<close>

datatype jsval =
    Undefined
  | Null
  | Bool bool
  | Num rat
  | Str jsstring
  | Arr "jsval list"
  | Obj "(jsstring \<times> jsval) list"

text \<open>\<open>v.k\<close> for the property names the code reads (none of them is inherited).\<close>

fun getProp :: "jsval \<Rightarrow> jsstring \<Rightarrow> jsval" where
  "getProp (Obj props) k = (case map_of props k of None \<Rightarrow> Undefined | Some v \<Rightarrow> v)"
| "getProp _ k = Undefined"

text \<open>JavaScript truthiness, as \<open>&&\<close>, \<open>!\<close> and \<open>?:\<close> test it.\<close>

fun truthy :: "jsval \<Rightarrow> bool" where
  "truthy Undefined = False"
| "truthy Null = False"
| "truthy (Bool b) = b"
| "truthy (Num n) = (n \<noteq> 0)"
| "truthy (Str s) = (s \<noteq> [])"
| "truthy (Arr xs) = True"
| "truthy (Obj props) = True"

fun isArray :: "jsval \<Rightarrow> bool" where
  "isArray (Arr xs) = True"
| "isArray _ = False"

text \<open>An object that is no array.\<close>

fun isPlainObject :: "jsval \<Rightarrow> bool" where
  "isPlainObject (Obj props) = True"
| "isPlainObject _ = False"

section \<open>stegoService.js: the binary-string helpers\<close>

text \<open>\<open>num.toString(2)\<close> for a non-negative integer.\<close>

fun toBinary :: "nat \<Rightarrow> bits" where
  "toBinary n = (if n < 2 then [n = 1] else toBinary (n div 2) @ [odd n])"

declare toBinary.simps [simp del]

text \<open>\<open>s.padStart(n, '0')\<close>: pads on the left, never cuts.\<close>

definition padStart :: "nat \<Rightarrow> bits \<Rightarrow> bits" where
  "padStart n s = replicate (n - length s) False @ s"

text \<open>\<open>s.slice(a, b)\<close> for \<open>0 \<le> a\<close>, \<open>0 \<le> b\<close>.\<close>

definition slice :: "'a list \<Rightarrow> nat \<Rightarrow> nat \<Rightarrow> 'a list" where
  "slice s a b = take (b - a) (drop a s)"

text \<open>\<open>s.slice(-n)\<close> and \<open>s.slice(0, -n)\<close>.\<close>

definition sliceLast :: "'a list \<Rightarrow> nat \<Rightarrow> 'a list" where
  "sliceLast s n = drop (length s - n) s"

definition sliceButLast :: "'a list \<Rightarrow> nat \<Rightarrow> 'a list" where
  "sliceButLast s n = take (length s - n) s"

definition stringToBinary :: "jsstring \<Rightarrow> bits" where
  "stringToBinary str = concat (map (\<lambda>c. padStart 8 (toBinary c)) str)"

definition numberToBinary :: "nat \<Rightarrow> nat \<Rightarrow> bits" where
  "numberToBinary num len = padStart len (toBinary num)"

text \<open>\<open>parseInt(binary, 2)\<close> on a non-empty binary string.\<close>

definition binaryToNumber :: "bits \<Rightarrow> nat" where
  "binaryToNumber binary = foldl (\<lambda>n b. 2 * n + (if b then 1 else 0)) 0 binary"

text \<open>The loop of \<open>binaryToString\<close>: \<open>for (i = 0; i < binary.length; i += 8)\<close>.\<close>

function binaryToStringFrom :: "bits \<Rightarrow> nat \<Rightarrow> jsstring" where
  "binaryToStringFrom binary i =
     (if i < length binary
      then binaryToNumber (slice binary i (i + 8)) # binaryToStringFrom binary (i + 8)
      else [])"
  by pat_completeness auto
termination
  by (relation "measure (\<lambda>(binary, i). length binary - i)") auto

declare binaryToStringFrom.simps [simp del]

definition binaryToString :: "bits \<Rightarrow> jsstring" where
  "binaryToString binary = binaryToStringFrom binary 0"

text \<open>The 16-bit end marker \<open>'1111111111111110'\<close>.\<close>

definition endMarker :: bits where
  "endMarker = [True, True, True, True, True, True, True, True,
                True, True, True, True, True, True, True, False]"

section \<open>stegoService.js: the LSB loops\<close>

text \<open>
  Reading a typed array out of range gives \<open>undefined\<close>, which the bit operators read
  as 0; writing out of range is ignored (as \<open>xs[i := v]\<close> is).
\<close>

definition getPixel :: "bytes \<Rightarrow> nat \<Rightarrow> 8 word" where
  "getPixel pixels k = (if k < length pixels then pixels ! k else 0)"

definition bitValue :: "bool \<Rightarrow> 8 word" where
  "bitValue b = (if b then 1 else 0)"

text \<open>
  The inner loop of embedding,
  \<open>for (j = 0; j < 3 && dataIndex < fullBinaryData.length; j++)\<close>, from \<open>j\<close> on.
\<close>

function embedInner :: "bytes \<Rightarrow> bits \<Rightarrow> nat \<Rightarrow> nat \<Rightarrow> nat \<Rightarrow> bytes \<times> nat" where
  "embedInner pixels fullBinaryData i j dataIndex =
     (if j < 3 \<and> dataIndex < length fullBinaryData
      then embedInner
             (pixels[i + j := (getPixel pixels (i + j) AND 0xFE) OR bitValue (fullBinaryData ! dataIndex)])
             fullBinaryData i (j + 1) (dataIndex + 1)
      else (pixels, dataIndex))"
  by pat_completeness auto
termination
  by (relation "measure (\<lambda>(pixels, fullBinaryData, i, j, dataIndex). 3 - j)") auto

declare embedInner.simps [simp del]

lemma embedInner_length [simp]:
  "length (fst (embedInner pixels full i j dataIndex)) = length pixels"
  by (induction pixels full i j dataIndex rule: embedInner.induct)
     (subst embedInner.simps, simp)

text \<open>
  The outer loop,
  \<open>for (i = 0; i < pixels.length && dataIndex < fullBinaryData.length; i += 4)\<close>.
\<close>

function embedLoop :: "bytes \<Rightarrow> bits \<Rightarrow> nat \<Rightarrow> nat \<Rightarrow> bytes" where
  "embedLoop pixels fullBinaryData i dataIndex =
     (if i < length pixels \<and> dataIndex < length fullBinaryData
      then embedLoop (fst (embedInner pixels fullBinaryData i 0 dataIndex)) fullBinaryData
             (i + 4) (snd (embedInner pixels fullBinaryData i 0 dataIndex))
      else pixels)"
  by pat_completeness auto
termination
  by (relation "measure (\<lambda>(pixels, fullBinaryData, i, dataIndex). length pixels - i)") auto

declare embedLoop.simps [simp del]

text \<open>
  Extraction. The inner loop \<open>for (j = 0; j < 3; j++)\<close> appends one bit and tests the
  last 16 bits; on the marker it cuts it off and breaks with \<open>endMarkerFound = true\<close>.
\<close>

function extractInner :: "bytes \<Rightarrow> nat \<Rightarrow> nat \<Rightarrow> bits \<Rightarrow> bits \<times> bool" where
  "extractInner pixels i j binaryData =
     (if j < 3
      then (if 16 \<le> length (binaryData @ [getPixel pixels (i + j) AND 1 = 1])
               \<and> sliceLast (binaryData @ [getPixel pixels (i + j) AND 1 = 1]) 16 = endMarker
            then (sliceButLast (binaryData @ [getPixel pixels (i + j) AND 1 = 1]) 16, True)
            else extractInner pixels i (j + 1) (binaryData @ [getPixel pixels (i + j) AND 1 = 1]))
      else (binaryData, False))"
  by pat_completeness auto
termination
  by (relation "measure (\<lambda>(pixels, i, j, binaryData). 3 - j)") auto

declare extractInner.simps [simp del]

text \<open>The outer loop \<open>for (i = 0; i < pixels.length && !endMarkerFound; i += 4)\<close>.\<close>

function extractLoop :: "bytes \<Rightarrow> nat \<Rightarrow> bits \<Rightarrow> bool \<Rightarrow> bits \<times> bool" where
  "extractLoop pixels i binaryData endMarkerFound =
     (if i < length pixels \<and> \<not> endMarkerFound
      then extractLoop pixels (i + 4) (fst (extractInner pixels i 0 binaryData))
             (snd (extractInner pixels i 0 binaryData))
      else (binaryData, endMarkerFound))"
  by pat_completeness auto
termination
  by (relation "measure (\<lambda>(pixels, i, binaryData, endMarkerFound). length pixels - i)") auto

declare extractLoop.simps [simp del]

section \<open>issue.js and stegoService.js: the payload and its envelope\<close>

text \<open>The payload that \<open>routes/issue.js\<close> embeds (its fields, in the order it writes them).\<close>

record payload =
  transactionHash :: jsstring
  signature :: jsstring
  certificateHash :: jsstring
  combinedHash :: jsstring
  issuerId :: jsstring
  timestamp :: jsstring

text \<open>A decoy entry \<open>{type: 'decoy', fakeHash, fakeSignature, fakeIssuer}\<close>.\<close>

record decoy =
  fakeHash :: jsstring
  fakeSignature :: jsstring
  fakeIssuer :: jsstring

text \<open>
  The entries of a noise envelope, \<open>{type: 'real', data}\<close> or a decoy, and the envelope
  itself, \<open>{mode: 'plain', data}\<close> or \<open>{mode: 'noise', entries}\<close>.
\<close>

datatype entry = RealEntry payload | DecoyEntry decoy

datatype envelope = Plain payload | Noise "entry list"

text \<open>The same objects as JavaScript values (what a JSON parser gives back for them).\<close>

definition payloadJs :: "payload \<Rightarrow> jsval" where
  "payloadJs p = Obj
     [(js ''transactionHash'', Str (transactionHash p)),
      (js ''signature'', Str (signature p)),
      (js ''certificateHash'', Str (certificateHash p)),
      (js ''combinedHash'', Str (combinedHash p)),
      (js ''issuerId'', Str (issuerId p)),
      (js ''timestamp'', Str (timestamp p))]"

fun entryJs :: "entry \<Rightarrow> jsval" where
  "entryJs (RealEntry p) = Obj [(js ''type'', Str (js ''real'')), (js ''data'', payloadJs p)]"
| "entryJs (DecoyEntry d) = Obj
     [(js ''type'', Str (js ''decoy'')),
      (js ''fakeHash'', Str (fakeHash d)),
      (js ''fakeSignature'', Str (fakeSignature d)),
      (js ''fakeIssuer'', Str (fakeIssuer d))]"

fun envelopeJs :: "envelope \<Rightarrow> jsval" where
  "envelopeJs (Plain p) = Obj [(js ''mode'', Str (js ''plain'')), (js ''data'', payloadJs p)]"
| "envelopeJs (Noise es) =
     Obj [(js ''mode'', Str (js ''noise'')), (js ''entries'', Arr (map entryJs es))]"

subsection \<open>\<open>JSON.stringify\<close> on these objects\<close>

text \<open>
  A string is quoted as ECMAScript's \<open>QuoteJSONString\<close> does: the quote, the backslash
  and the control characters are escaped, a lone surrogate is written \<open>\uXXXX\<close>, every
  other code unit stands for itself.
\<close>

definition hexDigit :: "nat \<Rightarrow> nat" where
  "hexDigit d = (if d < 10 then 48 + d else 87 + d)"

definition unicodeEscape :: "nat \<Rightarrow> jsstring" where
  "unicodeEscape c =
     [92, 117, hexDigit (c div 4096 mod 16), hexDigit (c div 256 mod 16),
      hexDigit (c div 16 mod 16), hexDigit (c mod 16)]"

definition isSurrogate :: "nat \<Rightarrow> bool" where
  "isSurrogate c = (55296 \<le> c \<and> c \<le> 57343)"

definition escapeUnit :: "nat \<Rightarrow> jsstring" where
  "escapeUnit c =
     (if c = 8 then [92, 98]
      else if c = 9 then [92, 116]
      else if c = 10 then [92, 110]
      else if c = 12 then [92, 102]
      else if c = 13 then [92, 114]
      else if c = 34 then [92, 34]
      else if c = 92 then [92, 92]
      else if c < 32 then unicodeEscape c
      else if isSurrogate c then unicodeEscape c
      else [c])"

fun quoteChars :: "jsstring \<Rightarrow> jsstring" where
  "quoteChars [] = []"
| "quoteChars [c] = escapeUnit c"
| "quoteChars (c # d # cs) =
     (if 55296 \<le> c \<and> c \<le> 56319 \<and> 56320 \<le> d \<and> d \<le> 57343
      then c # d # quoteChars cs
      else escapeUnit c @ quoteChars (d # cs))"

definition quoteJSON :: "jsstring \<Rightarrow> jsstring" where
  "quoteJSON s = 34 # quoteChars s @ [34]"

text \<open>\<open>"key":value\<close>, the members joined by commas between braces.\<close>

definition member :: "string \<Rightarrow> jsstring \<Rightarrow> jsstring" where
  "member k v = quoteJSON (js k) @ js '':'' @ v"

fun joinComma :: "jsstring list \<Rightarrow> jsstring" where
  "joinComma [] = []"
| "joinComma [x] = x"
| "joinComma (x # y # ys) = x @ js '','' @ joinComma (y # ys)"

definition stringifyPayload :: "payload \<Rightarrow> jsstring" where
  "stringifyPayload p = js ''{'' @ joinComma
     [member ''transactionHash'' (quoteJSON (transactionHash p)),
      member ''signature'' (quoteJSON (signature p)),
      member ''certificateHash'' (quoteJSON (certificateHash p)),
      member ''combinedHash'' (quoteJSON (combinedHash p)),
      member ''issuerId'' (quoteJSON (issuerId p)),
      member ''timestamp'' (quoteJSON (timestamp p))] @ js ''}''"

fun stringifyEntry :: "entry \<Rightarrow> jsstring" where
  "stringifyEntry (RealEntry p) = js ''{'' @ joinComma
     [member ''type'' (quoteJSON (js ''real'')), member ''data'' (stringifyPayload p)] @ js ''}''"
| "stringifyEntry (DecoyEntry d) = js ''{'' @ joinComma
     [member ''type'' (quoteJSON (js ''decoy'')),
      member ''fakeHash'' (quoteJSON (fakeHash d)),
      member ''fakeSignature'' (quoteJSON (fakeSignature d)),
      member ''fakeIssuer'' (quoteJSON (fakeIssuer d))] @ js ''}''"

fun JSON_stringify :: "envelope \<Rightarrow> jsstring" where
  "JSON_stringify (Plain p) = js ''{'' @ joinComma
     [member ''mode'' (quoteJSON (js ''plain'')), member ''data'' (stringifyPayload p)] @ js ''}''"
| "JSON_stringify (Noise es) = js ''{'' @ joinComma
     [member ''mode'' (quoteJSON (js ''noise'')),
      member ''entries'' (js ''['' @ joinComma (map stringifyEntry es) @ js '']'')] @ js ''}''"

subsection \<open>The randomness of the decoys\<close>

text \<open>
  The entropy a call of \<open>embedData\<close> draws: the bytes that \<open>crypto.randomBytes\<close>
  returns, as one stream that each call of \<open>randomBytes(32)\<close> takes the next 32 of, and
  for the \<open>i\<close>-th decoy the text \<open>Math.random().toString(36)\<close>.
\<close>

record entropy =
  randomStream :: "nat \<Rightarrow> 8 word"
  mathRandom36 :: "nat \<Rightarrow> jsstring"

definition randomBytes32 :: "entropy \<Rightarrow> nat \<Rightarrow> bytes" where
  "randomBytes32 ent call = map (randomStream ent) [32 * call ..< 32 * call + 32]"

text \<open>\<open>buffer.toString('hex')\<close>.\<close>

definition toHex :: "bytes \<Rightarrow> jsstring" where
  "toHex buffer = concat (map (\<lambda>b. [hexDigit (unat b div 16), hexDigit (unat b mod 16)]) buffer)"

text \<open>The \<open>i\<close>-th decoy that the loop pushes.\<close>

definition makeDecoy :: "entropy \<Rightarrow> nat \<Rightarrow> decoy" where
  "makeDecoy ent i =
     \<lparr>fakeHash = toHex (randomBytes32 ent (2 * i)),
      fakeSignature = toHex (randomBytes32 ent (2 * i + 1)),
      fakeIssuer = js ''decoy-'' @ slice (mathRandom36 ent i) 2 8\<rparr>"

text \<open>
  The options of \<open>embedData\<close>; \<open>decoyCount = None\<close> is a missing \<open>decoyCount\<close>, and
  \<open>options.decoyCount || 5\<close> reads 0 as missing too.
\<close>

record options =
  noiseDefense :: bool
  decoyCount :: "nat option"

definition decoyTotal :: "options \<Rightarrow> nat" where
  "decoyTotal opts = (case decoyCount opts of None \<Rightarrow> 5 | Some n \<Rightarrow> (if n = 0 then 5 else n))"

text \<open>The payload construction of \<open>embedData\<close>.\<close>

definition buildPayload :: "entropy \<Rightarrow> options \<Rightarrow> payload \<Rightarrow> envelope" where
  "buildPayload ent opts data =
     (if noiseDefense opts
      then Noise (RealEntry data # map (\<lambda>i. DecoyEntry (makeDecoy ent i)) [0 ..< decoyTotal opts])
      else Plain data)"

section \<open>stegoService.js: \<open>embedData\<close> and \<open>extractData\<close>\<close>

text \<open>
  Files are named by their paths; the file that \<open>embedData\<close> writes is
  \<open>temp/embedded_<Date.now()>.png\<close>, the one that \<open>embedDataInPDF\<close> writes is
  \<open>temp/embedded_<Date.now()>.pdf\<close>.
\<close>

datatype path = UserFile jsstring | TempEmbedded nat | TempEmbeddedPdf nat

type_synonym files = "path \<Rightarrow> bytes option"

text \<open>The \<open>ImageData\<close> of a canvas; \<open>rgba\<close> is its \<open>data\<close>.\<close>

record imageData =
  width :: nat
  height :: nat
  rgba :: bytes

text \<open>
  The libraries below the service: \<open>loadImageData\<close> is \<open>loadImage\<close>, \<open>drawImage\<close> and
  \<open>getImageData\<close> (\<open>None\<close> when the image does not decode and \<open>loadImage\<close> throws),
  \<open>toPngBuffer\<close> is \<open>putImageData\<close> and \<open>canvas.toBuffer('image/png')\<close>, \<open>JSON_parse\<close>
  is \<open>JSON.parse\<close> (\<open>None\<close> for its \<open>SyntaxError\<close>) and \<open>sha256hex\<close> is
  \<open>crypto.createHash('sha256')\<close> with \<open>digest('hex')\<close>.
\<close>

record runtime =
  loadImageData :: "bytes \<Rightarrow> imageData option"
  toPngBuffer :: "imageData \<Rightarrow> bytes"
  JSON_parse :: "jsstring \<Rightarrow> jsval option"
  sha256hex :: "bytes \<Rightarrow> jsstring"

datatype error = Error string

text \<open>
  Lines 60 to 80 of \<open>embedData\<close> on the pixel data: the framing, the capacity test and
  the LSB loop.
\<close>

definition fullBinaryData :: "jsstring \<Rightarrow> bits" where
  "fullBinaryData dataString =
     numberToBinary (length dataString) 32 @ stringToBinary dataString @ endMarker"

definition embedBits :: "bytes \<Rightarrow> jsstring \<Rightarrow> error + bytes" where
  "embedBits pixels dataString =
     (if length (fullBinaryData dataString) > length pixels * 3
      then Inl (Error ''Data too large to embed in image'')
      else Inr (embedLoop pixels (fullBinaryData dataString) 0 0))"

text \<open>The \<open>try\<close> block of \<open>embedData\<close>: the path of the new file and the files after it.\<close>

definition embedTry ::
  "runtime \<Rightarrow> entropy \<Rightarrow> nat \<Rightarrow> files \<Rightarrow> path \<Rightarrow> payload \<Rightarrow> options \<Rightarrow> error + (path \<times> files)" where
  "embedTry rt ent now fs imagePath data opts =
     (case fs imagePath of
        None \<Rightarrow> Inl (Error ''readFileSync'')
      | Some imageBuffer \<Rightarrow>
          (case loadImageData rt imageBuffer of
             None \<Rightarrow> Inl (Error ''loadImage'')
           | Some img \<Rightarrow>
               (case embedBits (rgba img) (JSON_stringify (buildPayload ent opts data)) of
                  Inl e \<Rightarrow> Inl e
                | Inr pixels \<Rightarrow>
                    Inr (TempEmbedded now,
                         fs(TempEmbedded now \<mapsto> toPngBuffer rt (img\<lparr>rgba := pixels\<rparr>))))))"

text \<open>Its \<open>catch\<close> throws one error for every failure.\<close>

definition embedData ::
  "runtime \<Rightarrow> entropy \<Rightarrow> nat \<Rightarrow> files \<Rightarrow> path \<Rightarrow> payload \<Rightarrow> options \<Rightarrow> error + (path \<times> files)" where
  "embedData rt ent now fs imagePath data opts =
     (case embedTry rt ent now fs imagePath data opts of
        Inl e \<Rightarrow> Inl (Error ''Failed to embed data via steganography'')
      | Inr r \<Rightarrow> Inr r)"

text \<open>
  Lines 114 to 144 of \<open>extractData\<close> on the pixel data: \<open>None\<close> is the \<open>return null\<close>
  of line 135, otherwise the string handed to \<open>JSON.parse\<close>.
\<close>

definition extractBits :: "bytes \<Rightarrow> jsstring option" where
  "extractBits pixels =
     (case extractLoop pixels 0 [] False of
        (binaryData, endMarkerFound) \<Rightarrow>
          if \<not> endMarkerFound then None
          else if length binaryData < 32 then None
          else Some (binaryToString
                 (slice binaryData 32 (32 + binaryToNumber (slice binaryData 0 32) * 8))))"

text \<open>Lines 147 to 155: which value of the parsed envelope is returned.\<close>

fun elements :: "jsval \<Rightarrow> jsval list" where
  "elements (Arr xs) = xs"
| "elements _ = []"

definition isRealEntry :: "jsval \<Rightarrow> bool" where
  "isRealEntry e =
     (truthy e \<and> getProp e (js ''type'') = Str (js ''real'') \<and> truthy (getProp e (js ''data'')))"

definition selectResult :: "jsval \<Rightarrow> jsval" where
  "selectResult extracted =
     (if truthy extracted \<and> getProp extracted (js ''mode'') = Str (js ''noise'')
         \<and> isArray (getProp extracted (js ''entries''))
      then (case find isRealEntry (elements (getProp extracted (js ''entries''))) of
              None \<Rightarrow> Null
            | Some found \<Rightarrow> getProp found (js ''data''))
      else if truthy extracted \<and> getProp extracted (js ''mode'') = Str (js ''plain'')
              \<and> truthy (getProp extracted (js ''data''))
      then getProp extracted (js ''data'')
      else extracted)"

text \<open>The \<open>try\<close> block of \<open>extractData\<close>; \<open>Inl\<close> is an exception thrown inside it.\<close>

definition extractTry :: "runtime \<Rightarrow> files \<Rightarrow> path \<Rightarrow> error + jsval" where
  "extractTry rt fs imagePath =
     (case fs imagePath of
        None \<Rightarrow> Inl (Error ''readFileSync'')
      | Some imageBuffer \<Rightarrow>
          (case loadImageData rt imageBuffer of
             None \<Rightarrow> Inl (Error ''loadImage'')
           | Some img \<Rightarrow>
               (case extractBits (rgba img) of
                  None \<Rightarrow> Inr Null
                | Some dataString \<Rightarrow>
                    (case JSON_parse rt dataString of
                       None \<Rightarrow> Inl (Error ''SyntaxError'')
                     | Some extracted \<Rightarrow> Inr (selectResult extracted)))))"

text \<open>Its \<open>catch\<close> returns \<open>null\<close>.\<close>

definition extractData :: "runtime \<Rightarrow> files \<Rightarrow> path \<Rightarrow> jsval" where
  "extractData rt fs imagePath =
     (case extractTry rt fs imagePath of Inl e \<Rightarrow> Null | Inr result \<Rightarrow> result)"

text \<open>\<open>embedDataInPDF\<close> copies the file and embeds nothing.\<close>

definition embedDataInPDF :: "nat \<Rightarrow> files \<Rightarrow> path \<Rightarrow> error + (path \<times> files)" where
  "embedDataInPDF now fs pdfPath =
     (case fs pdfPath of
        None \<Rightarrow> Inl (Error ''Failed to embed data in PDF'')
      | Some content \<Rightarrow> Inr (TempEmbeddedPdf now, fs(TempEmbeddedPdf now \<mapsto> content)))"

section \<open>utils/hash.js, cryptoService.js and blockchainService.js\<close>

text \<open>\<open>generateHash\<close>: the SHA-256 of the file, rejected when the file cannot be read.\<close>

definition generateHash :: "runtime \<Rightarrow> files \<Rightarrow> path \<Rightarrow> error + jsstring" where
  "generateHash rt fs filePath =
     (case fs filePath of
        None \<Rightarrow> Inl (Error ''createReadStream'')
      | Some content \<Rightarrow> Inr (sha256hex rt content))"

text \<open>The names that \<open>module.exports\<close> of \<open>utils/hash.js\<close> holds.\<close>

definition utilsHashExports :: "string list" where
  "utilsHashExports =
     [''generateHash'', ''generateStringHash'', ''generateBufferHash'',
      ''verifyFileIntegrity'', ''generateSaltedHash'', ''generateHMAC'',
      ''generateMultipleHashes'', ''generateMetadataHash'', ''validateHashFormat'']"

text \<open>
  \<open>const { name } = require('../utils/hash')\<close> binds a function when the module exports
  the name, and \<open>undefined\<close> otherwise.
\<close>

definition exportedByUtilsHash :: "string \<Rightarrow> bool" where
  "exportedByUtilsHash name = (name \<in> set utilsHashExports)"

text \<open>
  The key storage and the RSA primitives under \<open>cryptoService\<close>; \<open>None\<close> is a thrown
  exception (no key file for the issuer, a signature that is not a base64 string).
\<close>

record cryptoEnv =
  getPublicKey :: "jsval \<Rightarrow> jsstring option"
  getPrivateKey :: "jsstring \<Rightarrow> jsstring option"
  rsaSign :: "jsstring \<Rightarrow> jsstring \<Rightarrow> jsstring option"
  rsaVerify :: "jsstring \<Rightarrow> jsstring \<Rightarrow> jsval \<Rightarrow> bool option"

definition signData :: "cryptoEnv \<Rightarrow> jsstring \<Rightarrow> jsstring \<Rightarrow> error + jsstring" where
  "signData cr data issuer =
     (case getPrivateKey cr issuer of
        None \<Rightarrow> Inl (Error ''Failed to sign data'')
      | Some privateKey \<Rightarrow>
          (case rsaSign cr privateKey data of
             None \<Rightarrow> Inl (Error ''Failed to sign data'')
           | Some sig \<Rightarrow> Inr sig))"

text \<open>The \<open>valid\<close> field of what \<open>verifySignature\<close> returns; its \<open>catch\<close> returns false.\<close>

definition verifySignature :: "cryptoEnv \<Rightarrow> jsstring \<Rightarrow> jsval \<Rightarrow> jsval \<Rightarrow> bool" where
  "verifySignature cr data sig issuer =
     (case getPublicKey cr issuer of
        None \<Rightarrow> False
      | Some publicKey \<Rightarrow>
          (case rsaVerify cr publicKey data sig of None \<Rightarrow> False | Some isValid \<Rightarrow> isValid))"

text \<open>
  The chain: \<open>contract\<close> is \<open>blockchainService.contract\<close> after \<open>initialize()\<close> (\<open>None\<close>
  with the placeholder address of \<open>config/blockchain.js\<close>), its two calls may throw
  (\<open>None\<close>); \<open>storeTransaction\<close> is the transaction hash that storing a hash for an
  issuer ends with, and \<open>simulationBytes\<close> is what \<open>crypto.randomBytes(32)\<close> gives the
  simulation.
\<close>

record chainContract =
  contractVerifyHash :: "jsstring \<Rightarrow> bool option"
  contractGetIssuer :: "jsstring \<Rightarrow> jsstring option"

record chain =
  contract :: "chainContract option"
  storeTransaction :: "jsstring \<Rightarrow> jsstring \<Rightarrow> jsstring"
  simulationBytes :: bytes

text \<open>
  What \<open>verifyHash\<close> returns, without its time stamp and network name:
  \<open>cvCertificateHash\<close> is its \<open>certificateHash\<close>, the hash that was looked for.
\<close>

record chainVerification =
  cvValid :: bool
  cvTransactionHash :: jsval
  cvCertificateHash :: jsstring
  cvSimulated :: bool

text \<open>
  The simulation answers \<open>valid: true\<close>; its transaction hash is
  \<open>transactionHash || '0x' + randomBytes(32).toString('hex')\<close>.
\<close>

definition simulateBlockchainVerification ::
  "bytes \<Rightarrow> jsval \<Rightarrow> jsstring \<Rightarrow> chainVerification" where
  "simulateBlockchainVerification randomBytes txHash expectedHash =
     \<lparr>cvValid = True,
      cvTransactionHash =
        (if truthy txHash then txHash else Str (js ''0x'' @ toHex randomBytes)),
      cvCertificateHash = expectedHash, cvSimulated = True\<rparr>"

text \<open>
  \<open>verifyHash\<close>: without a contract the simulation answers; with one, the contract is
  asked for \<open>expectedHash\<close>, and an exception falls back to the simulation. (The
  data-transaction path after the two \<open>if\<close>s is never reached.)
\<close>

definition verifyHash :: "chain \<Rightarrow> jsval \<Rightarrow> jsstring \<Rightarrow> chainVerification" where
  "verifyHash ch txHash expectedHash =
     (case contract ch of
        None \<Rightarrow> simulateBlockchainVerification (simulationBytes ch) txHash expectedHash
      | Some c \<Rightarrow>
          (case contractVerifyHash c expectedHash of
             None \<Rightarrow> simulateBlockchainVerification (simulationBytes ch) txHash expectedHash
           | Some isValid \<Rightarrow>
               (case contractGetIssuer c expectedHash of
                  None \<Rightarrow> simulateBlockchainVerification (simulationBytes ch) txHash expectedHash
                | Some issuer \<Rightarrow>
                    \<lparr>cvValid = isValid, cvTransactionHash = txHash,
                     cvCertificateHash = expectedHash, cvSimulated = False\<rparr>)))"

section \<open>routes/verify.js: \<open>POST /certificate\<close>\<close>

record verificationDetails =
  vdCertificateHash :: jsstring
  hasEmbeddedData :: bool
  blockchainVerified :: bool
  signatureVerified :: bool

record verifyBody =
  success :: bool
  valid :: bool
  message :: string
  verificationDetails :: verificationDetails
  blockchainDetails :: "chainVerification option"

datatype verifyResponse = Json verifyBody | Status nat string

text \<open>Steps 3 to 5, for embedded data that is truthy.\<close>

definition verifyEmbedded :: "chain \<Rightarrow> cryptoEnv \<Rightarrow> jsstring \<Rightarrow> jsval \<Rightarrow> verifyBody" where
  "verifyEmbedded ch cr certHash embeddedData =
     (let blockchainVerification =
            verifyHash ch (getProp embeddedData (js ''transactionHash'')) certHash;
          signatureValid =
            verifySignature cr certHash (getProp embeddedData (js ''signature''))
              (getProp embeddedData (js ''issuerId''));
          isValid = (cvValid blockchainVerification \<and> signatureValid)
      in \<lparr>success = True, valid = isValid,
          message = (if isValid then ''Certificate is valid and authentic''
                     else ''Certificate verification failed''),
          verificationDetails =
            \<lparr>vdCertificateHash = certHash, hasEmbeddedData = True,
             blockchainVerified = cvValid blockchainVerification,
             signatureVerified = signatureValid\<rparr>,
          blockchainDetails = Some blockchainVerification\<rparr>)"

text \<open>The response for embedded data that is falsy.\<close>

definition noEmbeddedData :: "jsstring \<Rightarrow> verifyBody" where
  "noEmbeddedData certHash =
     \<lparr>success = False, valid = False,
      message = ''No embedded verification data found in certificate'',
      verificationDetails =
        \<lparr>vdCertificateHash = certHash, hasEmbeddedData = False,
         blockchainVerified = False, signatureVerified = False\<rparr>,
      blockchainDetails = None\<rparr>"

text \<open>The handler; \<open>certificateFile\<close> is the path of \<open>req.file\<close>, if there is one.\<close>

definition verifyCertificate ::
  "runtime \<Rightarrow> chain \<Rightarrow> cryptoEnv \<Rightarrow> files \<Rightarrow> path option \<Rightarrow> verifyResponse" where
  "verifyCertificate rt ch cr fs certificateFile =
     (case certificateFile of
        None \<Rightarrow> Status 400 ''No certificate file provided''
      | Some filePath \<Rightarrow>
          (case generateHash rt fs filePath of
             Inl e \<Rightarrow> Status 500 ''Failed to verify certificate''
           | Inr certHash \<Rightarrow>
               (if \<not> truthy (extractData rt fs filePath)
                then Json (noEmbeddedData certHash)
                else Json (verifyEmbedded ch cr certHash (extractData rt fs filePath)))))"

section \<open>routes/issue.js: \<open>POST /certificate\<close>\<close>

text \<open>
  The request: the form fields (\<open>None\<close> when missing), whether the uploaded file is a
  PDF, and \<open>authorityFound\<close>, whether the registry holds an authority of the selected
  name (reading the registry never fails the request).
\<close>

record issueRequest =
  reqIssuerId :: "jsstring option"
  reqIssuerName :: "jsstring option"
  reqRecipientName :: "jsstring option"
  reqCertificateType :: "jsstring option"
  reqIssuerNameSelected :: "jsstring option"
  reqNoiseDefense :: "jsstring option"
  reqFile :: "path option"
  reqIsPdf :: bool
  authorityFound :: bool

record issueBody =
  ibCertificateHash :: jsstring
  ibTransactionHash :: jsstring
  ibSignature :: jsstring
  ibCombinedHash :: jsstring
  ibIssuerId :: jsstring
  ibEmbeddedFilePath :: path
  ibNoiseDefense :: bool

datatype issueResponse = Issued issueBody | IssueStatus nat string

fun present :: "jsstring option \<Rightarrow> bool" where
  "present None = False"
| "present (Some s) = (s \<noteq> [])"

text \<open>
  From step 3 on. \<open>combine\<close> stands for the function that \<open>generateCombinedHash\<close> is
  bound to; calling the binding throws when it is \<open>undefined\<close>.
\<close>

definition issueFromStep3 ::
  "(jsstring \<Rightarrow> jsstring \<Rightarrow> jsstring) \<Rightarrow> runtime \<Rightarrow> entropy \<Rightarrow> nat \<Rightarrow> jsstring \<Rightarrow> chain \<Rightarrow> files \<Rightarrow>
   issueRequest \<Rightarrow> path \<Rightarrow> jsstring \<Rightarrow> jsstring \<Rightarrow> jsstring \<Rightarrow> jsstring \<Rightarrow> issueResponse \<times> files" where
  "issueFromStep3 combine rt ent now nowIso ch fs req filePath certHash sig issuer signerId =
     (if \<not> exportedByUtilsHash ''generateCombinedHash''
      then (IssueStatus 500 ''Failed to issue certificate'', fs)
      else
        (let combined = combine certHash sig;
             txHash = storeTransaction ch combined issuer;
             data = \<lparr>transactionHash = txHash, signature = sig, certificateHash = certHash,
                     combinedHash = combined, issuerId = signerId, timestamp = nowIso\<rparr>;
             noise = (reqNoiseDefense req = Some (js ''true''))
         in case (if reqIsPdf req then embedDataInPDF now fs filePath
                  else embedData rt ent now fs filePath data
                         \<lparr>noiseDefense = noise, decoyCount = None\<rparr>) of
              Inl e \<Rightarrow> (IssueStatus 500 ''Failed to issue certificate'', fs)
            | Inr (embeddedFilePath, fs') \<Rightarrow>
                (Issued \<lparr>ibCertificateHash = certHash, ibTransactionHash = txHash,
                         ibSignature = sig, ibCombinedHash = combined, ibIssuerId = signerId,
                         ibEmbeddedFilePath = embeddedFilePath, ibNoiseDefense = noise\<rparr>,
                 fs')))"

text \<open>The handler.\<close>

definition issueCertificate ::
  "(jsstring \<Rightarrow> jsstring \<Rightarrow> jsstring) \<Rightarrow> runtime \<Rightarrow> entropy \<Rightarrow> nat \<Rightarrow> jsstring \<Rightarrow> chain \<Rightarrow> cryptoEnv \<Rightarrow>
   files \<Rightarrow> issueRequest \<Rightarrow> issueResponse \<times> files" where
  "issueCertificate combine rt ent now nowIso ch cr fs req =
     (case reqFile req of
        None \<Rightarrow> (IssueStatus 400 ''No certificate file provided'', fs)
      | Some filePath \<Rightarrow>
          (if present (reqIssuerId req) \<and> present (reqIssuerName req)
              \<and> present (reqRecipientName req) \<and> present (reqCertificateType req)
           then
             (case generateHash rt fs filePath of
                Inl e \<Rightarrow> (IssueStatus 500 ''Failed to issue certificate'', fs)
              | Inr certHash \<Rightarrow>
                  (let issuer = the (reqIssuerId req);
                       signerId = (if present (reqIssuerNameSelected req) \<and> authorityFound req
                                   then the (reqIssuerNameSelected req) else issuer)
                   in case signData cr certHash signerId of
                        Inl e \<Rightarrow> (IssueStatus 500 ''Failed to issue certificate'', fs)
                      | Inr sig \<Rightarrow>
                          issueFromStep3 combine rt ent now nowIso ch fs req filePath
                            certHash sig issuer signerId))
           else (IssueStatus 400
                   ''Missing required fields: issuerId, issuerName, recipientName, certificateType'',
                 fs)))"

section \<open>The carrier as a bit stream\<close>

text \<open>
  Definitions for the proofs. \<open>lsbStream\<close> is the sequence of bits that the extraction
  loop reads from a pixel buffer: the low bit of R, G and B of each pixel in turn, a
  missing channel of a cut-off last pixel reading as 0. \<open>setLsb\<close> is the byte that the
  embedding loop stores, and \<open>writeBits\<close> stores a run of bits into the bytes at the
  head of a list.
\<close>

definition lsb :: "8 word \<Rightarrow> bool" where
  "lsb w = (w AND 1 = 1)"

fun lsbStream :: "bytes \<Rightarrow> bits" where
  "lsbStream (r # g # b # a # rest) = lsb r # lsb g # lsb b # lsbStream rest"
| "lsbStream [r, g, b] = [lsb r, lsb g, lsb b]"
| "lsbStream [r, g] = [lsb r, lsb g, False]"
| "lsbStream [r] = [lsb r, False, False]"
| "lsbStream [] = []"

definition setLsb :: "8 word \<Rightarrow> bool \<Rightarrow> 8 word" where
  "setLsb x b = (x AND 0xFE) OR bitValue b"

fun writeBits :: "bytes \<Rightarrow> bits \<Rightarrow> bytes" where
  "writeBits (x # xs) (b # bs) = setLsb x b # writeBits xs bs"
| "writeBits xs [] = xs"
| "writeBits [] bs = []"

text \<open>
  The scan of the extraction loops over a bit stream: \<open>acc\<close> is \<open>binaryData\<close> so far.
\<close>

fun scanBits :: "bits \<Rightarrow> bits \<Rightarrow> bits \<times> bool" where
  "scanBits acc [] = (acc, False)"
| "scanBits acc (b # bs) =
     (if 16 \<le> length (acc @ [b]) \<and> sliceLast (acc @ [b]) 16 = endMarker
      then (sliceButLast (acc @ [b]) 16, True)
      else scanBits (acc @ [b]) bs)"

text \<open>
  The same scan with a counter: \<open>run\<close> is the number of 1 bits that end the stream read
  so far and \<open>n\<close> the number of bits read. The marker is found at the first 0 bit that
  follows 15 or more 1 bits; \<open>Some k\<close> says that the marker starts at bit \<open>k\<close>, so that
  \<open>k\<close> bits stay in \<open>binaryData\<close>.
\<close>

definition trailingOnes :: "bits \<Rightarrow> nat" where
  "trailingOnes acc = length (takeWhile (\<lambda>b. b) (rev acc))"

fun findMarker :: "nat \<Rightarrow> nat \<Rightarrow> bits \<Rightarrow> nat option" where
  "findMarker run n [] = None"
| "findMarker run n (b # bs) =
     (if \<not> b \<and> 15 \<le> run then Some (n - 15)
      else findMarker (if b then Suc run else 0) (Suc n) bs)"

text \<open>The run of 1 bits after a segment, and whether the scan passes the segment.\<close>

fun runAfter :: "nat \<Rightarrow> bits \<Rightarrow> nat" where
  "runAfter run [] = run"
| "runAfter run (b # bs) = runAfter (if b then Suc run else 0) bs"

fun markerFree :: "nat \<Rightarrow> bits \<Rightarrow> bool" where
  "markerFree run [] = True"
| "markerFree run (b # bs) = ((b \<or> run < 15) \<and> markerFree (if b then Suc run else 0) bs)"

text \<open>
  A frame: a 32-bit length, the bits of a text, the marker. \<open>fullBinaryData s\<close> is the
  frame of \<open>s\<close> under its own length; a carrier made elsewhere may hold any other.
\<close>

definition frame :: "nat \<Rightarrow> jsstring \<Rightarrow> bits" where
  "frame n t = numberToBinary n 32 @ stringToBinary t @ endMarker"

text \<open>Lines 134 to 144 of \<open>extractData\<close> on the bit stream of the carrier.\<close>

definition decodeStream :: "bits \<Rightarrow> jsstring option" where
  "decodeStream stream =
     (case findMarker 0 0 stream of
        None \<Rightarrow> None
      | Some k \<Rightarrow>
          if k < 32 then None
          else Some (binaryToString
                 (slice (take k stream) 32 (32 + binaryToNumber (slice (take k stream) 0 32) * 8))))"

section \<open>Observations on envelopes\<close>

text \<open>
  The entries of an envelope, the position of its first real entry, and the shape of
  an object: its keys in order (\<open>Object.keys\<close>).
\<close>

fun entries :: "envelope \<Rightarrow> entry list" where
  "entries (Noise es) = es"
| "entries (Plain p) = []"

fun realPosition :: "entry list \<Rightarrow> nat option" where
  "realPosition [] = None"
| "realPosition (RealEntry p # es) = Some 0"
| "realPosition (DecoyEntry d # es) = map_option Suc (realPosition es)"

fun isDecoy :: "entry \<Rightarrow> bool" where
  "isDecoy (DecoyEntry d) = True"
| "isDecoy (RealEntry p) = False"

fun keysOf :: "jsval \<Rightarrow> jsstring list" where
  "keysOf (Obj props) = map fst props"
| "keysOf _ = []"

definition isHexChar :: "nat \<Rightarrow> bool" where
  "isHexChar c = ((48 \<le> c \<and> c \<le> 57) \<or> (97 \<le> c \<and> c \<le> 102))"

section \<open>Example inputs\<close>

text \<open>
  Stand-ins for the libraries, to run the definitions on concrete inputs: a raw image
  format (width, height, then the RGBA bytes) in place of PNG, and a digest that is not
  SHA-256. The theorems hold for every runtime.
\<close>

definition rawDecode :: "bytes \<Rightarrow> imageData option" where
  "rawDecode content =
     (case content of
        w # h # px \<Rightarrow>
          (if length px = 4 * unat w * unat h
           then Some \<lparr>width = unat w, height = unat h, rgba = px\<rparr>
           else None)
      | _ \<Rightarrow> None)"

definition rawEncode :: "imageData \<Rightarrow> bytes" where
  "rawEncode img = of_nat (width img) # of_nat (height img) # rgba img"

definition exampleDigest :: "bytes \<Rightarrow> jsstring" where
  "exampleDigest content = toHex (take 32 (content @ replicate 32 0))"

text \<open>A runtime whose \<open>JSON.parse\<close> is given by a table of the texts it accepts.\<close>

definition exampleRuntime :: "(jsstring \<times> jsval) list \<Rightarrow> runtime" where
  "exampleRuntime parses =
     \<lparr>loadImageData = rawDecode, toPngBuffer = rawEncode,
      JSON_parse = map_of parses, sha256hex = exampleDigest\<rparr>"

text \<open>A black image of \<open>w\<close> by \<open>h\<close> opaque pixels, as a file.\<close>

definition blackImage :: "nat \<Rightarrow> nat \<Rightarrow> bytes" where
  "blackImage w h = rawEncode \<lparr>width = w, height = h, rgba = concat (replicate (w * h) [0, 0, 0, 255])\<rparr>"

definition uploadPath :: path where
  "uploadPath = UserFile (js ''verify-1.png'')"

definition noChain :: chain where
  "noChain = \<lparr>contract = None, storeTransaction = (\<lambda>h issuer. js ''0x00''),
               simulationBytes = replicate 32 0\<rparr>"

definition noKeys :: cryptoEnv where
  "noKeys = \<lparr>getPublicKey = (\<lambda>issuer. None), getPrivateKey = (\<lambda>issuer. None),
             rsaSign = (\<lambda>k d. None), rsaVerify = (\<lambda>k d s. None)\<rparr>"

text \<open>
  A payload with short fields, the same payload with the issuer id U+00FF U+00FE and
  with the issuer id U+0141, and one with a signature of 344 base64 characters; two entropy sources; the options of a
  plain and of a noise envelope.
\<close>

definition examplePayload :: payload where
  "examplePayload =
     \<lparr>transactionHash = js ''0xab'', signature = js ''c2ln'', certificateHash = js ''aa'',
      combinedHash = js ''bb'', issuerId = js ''univ-1'', timestamp = js ''T''\<rparr>"

definition markerPayload :: payload where
  "markerPayload = examplePayload\<lparr>issuerId := [255, 254]\<rparr>"

definition widePayload :: payload where
  "widePayload = examplePayload\<lparr>issuerId := [321]\<rparr>"

definition rsaPayload :: payload where
  "rsaPayload = examplePayload\<lparr>signature := replicate 342 65 @ [61, 61]\<rparr>"

definition exampleEntropy :: entropy where
  "exampleEntropy =
     \<lparr>randomStream = (\<lambda>i. of_nat (7 * i + 3)), mathRandom36 = (\<lambda>i. js ''0.4fzyo82mvyr'')\<rparr>"

definition otherEntropy :: entropy where
  "otherEntropy =
     \<lparr>randomStream = (\<lambda>i. of_nat (11 * i + 5)), mathRandom36 = (\<lambda>i. js ''0.9k2xq7c1d'')\<rparr>"

definition plainOptions :: options where
  "plainOptions = \<lparr>noiseDefense = False, decoyCount = None\<rparr>"

definition noiseOptions :: options where
  "noiseOptions = \<lparr>noiseDefense = True, decoyCount = Some 1\<rparr>"

text \<open>
  A runtime whose \<open>JSON.parse\<close> knows the envelope text of one payload.
\<close>

definition exampleParser :: "options \<Rightarrow> payload \<Rightarrow> runtime" where
  "exampleParser opts data =
     exampleRuntime [(JSON_stringify (buildPayload exampleEntropy opts data),
                      envelopeJs (buildPayload exampleEntropy opts data))]"

text \<open>
  Black opaque pixels, and the same pixels carrying given bits, as pixel data and as a
  file.
\<close>

definition blackPixels :: "nat \<Rightarrow> bytes" where
  "blackPixels n = concat (replicate n [0, 0, 0, 255])"

definition craftedPixels :: "nat \<Rightarrow> bits \<Rightarrow> bytes" where
  "craftedPixels n bs = embedLoop (blackPixels n) bs 0 0"

definition craftedImage :: "nat \<Rightarrow> nat \<Rightarrow> bits \<Rightarrow> bytes" where
  "craftedImage w h bs = rawEncode \<lparr>width = w, height = h, rgba = craftedPixels (w * h) bs\<rparr>"

text \<open>
  Parsed envelopes in noise mode with two real entries, with a decoy before the real
  entry, and with decoys only.
\<close>

definition twoRealEntries :: jsval where
  "twoRealEntries = Obj
     [(js ''mode'', Str (js ''noise'')),
      (js ''entries'', Arr
         [Obj [(js ''type'', Str (js ''real'')), (js ''data'', Str (js ''first''))],
          Obj [(js ''type'', Str (js ''real'')), (js ''data'', Str (js ''second''))]])]"

definition decoyThenReal :: jsval where
  "decoyThenReal = Obj
     [(js ''mode'', Str (js ''noise'')),
      (js ''entries'', Arr
         [Obj [(js ''type'', Str (js ''decoy'')), (js ''fakeHash'', Str (js ''00''))],
          Obj [(js ''type'', Str (js ''real'')), (js ''data'', Str (js ''authentic''))]])]"

definition onlyDecoys :: jsval where
  "onlyDecoys = Obj
     [(js ''mode'', Str (js ''noise'')),
      (js ''entries'', Arr
         [Obj [(js ''type'', Str (js ''decoy'')), (js ''fakeHash'', Str (js ''00''))]])]"

text \<open>
  A contract that holds one hash, a key store that signs, and an issuance request with
  every required field.
\<close>

definition registryChain :: "jsstring \<Rightarrow> chain" where
  "registryChain stored =
     \<lparr>contract = Some \<lparr>contractVerifyHash = (\<lambda>h. Some (h = stored)),
                         contractGetIssuer = (\<lambda>h. Some (js ''univ-1''))\<rparr>,
      storeTransaction = (\<lambda>h issuer. js ''0xab''), simulationBytes = replicate 32 0\<rparr>"

definition signingKeys :: cryptoEnv where
  "signingKeys =
     \<lparr>getPublicKey = (\<lambda>issuer. Some (js ''public'')),
      getPrivateKey = (\<lambda>issuer. Some (js ''private'')),
      rsaSign = (\<lambda>k d. Some (js ''c2ln'')), rsaVerify = (\<lambda>k d s. Some True)\<rparr>"

definition completeRequest :: issueRequest where
  "completeRequest =
     \<lparr>reqIssuerId = Some (js ''univ-1''), reqIssuerName = Some (js ''University''),
      reqRecipientName = Some (js ''Ada''), reqCertificateType = Some (js ''degree''),
      reqIssuerNameSelected = None, reqNoiseDefense = None, reqFile = Some uploadPath,
      reqIsPdf = False, authorityFound = False\<rparr>"

section \<open>The extraction loops read the bit stream\<close>

lemma getPixel_append [simp]:
  "getPixel (pre @ xs) (length pre + k) = getPixel xs k"
  by (simp add: getPixel_def nth_append)

lemma getPixel_append0 [simp]:
  "getPixel (pre @ xs) (length pre) = getPixel xs 0"
  using getPixel_append [of pre xs 0] by simp

lemma getPixel_simps [simp]:
  "getPixel (x # xs) 0 = x"
  "getPixel (x # xs) (Suc k) = getPixel xs k"
  "getPixel [] k = 0"
  by (simp_all add: getPixel_def)

lemma extractLoop_found [simp]:
  "extractLoop pixels i acc True = (acc, True)"
  by (subst extractLoop.simps) simp

lemma extractLoop_end [simp]:
  "extractLoop pre (length pre) acc found = (acc, found)"
  by (subst extractLoop.simps) simp

lemma extractInner_scan:
  "extractInner px i j acc = scanBits acc (map (\<lambda>k. lsb (getPixel px (i + k))) [j..<3])"
proof (induction px i j acc rule: extractInner.induct)
  case (1 pixels i j binaryData)
  show ?case
  proof (cases "j < 3")
    case True
    then have upt: "[j..<3] = j # [j + 1..<3]"
      by (simp add: upt_conv_Cons)
    show ?thesis
      using True 1
      by (subst extractInner.simps) (simp add: upt lsb_def)
  next
    case False
    then show ?thesis
      by (subst extractInner.simps) simp
  qed
qed

lemma scanBits_append:
  "scanBits acc (xs @ ys) =
     (if snd (scanBits acc xs) then scanBits acc xs else scanBits (fst (scanBits acc xs)) ys)"
  by (induction xs arbitrary: acc) simp_all

lemma extractLoop_step:
  "length pre < length px \<Longrightarrow>
   extractLoop px (length pre) acc False =
     extractLoop px (length pre + 4) (fst (extractInner px (length pre) 0 acc))
       (snd (extractInner px (length pre) 0 acc))"
  by (subst extractLoop.simps) simp

lemma three: "[0..<3] = [0, 1, 2]"
  by (simp add: upt_conv_Cons)

lemma lsb_zero [simp]: "lsb 0 = False"
  by (simp add: lsb_def)

lemma firstPixel_bits:
  "rest \<noteq> [] \<Longrightarrow>
   map (\<lambda>k. lsb (getPixel rest k)) [0..<3] = take 3 (lsbStream rest)"
  by (cases rest rule: lsbStream.cases) (simp_all add: three getPixel_def)

lemma lsbStream_drop:
  "rest \<noteq> [] \<Longrightarrow> lsbStream rest = take 3 (lsbStream rest) @ lsbStream (drop 4 rest)"
  by (cases rest rule: lsbStream.cases) simp_all

lemma extractLoop_scan:
  "extractLoop (pre @ rest) (length pre) acc False = scanBits acc (lsbStream rest)"
proof (induction "length rest" arbitrary: pre rest acc rule: less_induct)
  case less
  show ?case
  proof (cases "rest = []")
    case True
    then show ?thesis by simp
  next
    case False
    let ?first = "take 3 (lsbStream rest)"
    let ?pre' = "pre @ take 4 rest"
    have inner: "extractInner (pre @ rest) (length pre) 0 acc = scanBits acc ?first"
      using False by (simp add: extractInner_scan firstPixel_bits del: scanBits.simps)
    have shorter: "length (drop 4 rest) < length rest"
      using False by simp
    show ?thesis
    proof (cases "4 \<le> length rest")
      case True
      have px: "pre @ rest = ?pre' @ drop 4 rest"
        by simp
      have idx: "length pre + 4 = length ?pre'"
        using True by simp
      have "extractLoop (pre @ rest) (length pre) acc False =
          extractLoop (?pre' @ drop 4 rest) (length ?pre') (fst (scanBits acc ?first))
            (snd (scanBits acc ?first))"
        using extractLoop_step [of pre "pre @ rest" acc] False
        by (simp only: inner idx [symmetric] px [symmetric]) simp
      also have "\<dots> = scanBits acc (?first @ lsbStream (drop 4 rest))"
      proof (cases "scanBits acc ?first")
        case (Pair acc' found)
        show ?thesis
        proof (cases found)
          case True
          with Pair show ?thesis
            by (simp only: scanBits_append fst_conv snd_conv extractLoop_found if_True)
        next
          case False
          with Pair show ?thesis
            by (simp only: scanBits_append fst_conv snd_conv if_False less(1) [OF shorter])
        qed
      qed
      finally show ?thesis
        using lsbStream_drop [OF False] by simp
    next
      case short: False
      have beyond: "\<not> length pre + 4 < length (pre @ rest)"
        using short by simp
      have nil: "drop 4 rest = []"
        using short by simp
      have "extractLoop (pre @ rest) (length pre) acc False =
          extractLoop (pre @ rest) (length pre + 4) (fst (scanBits acc ?first))
            (snd (scanBits acc ?first))"
        using extractLoop_step [of pre "pre @ rest" acc] False
        by (simp only: inner) simp
      also have "\<dots> = scanBits acc ?first"
        using beyond by (subst extractLoop.simps) simp
      finally show ?thesis
        using lsbStream_drop [OF False] by (simp add: nil)
    qed
  qed
qed

lemma extractLoop_eq_scan:
  "extractLoop pixels 0 [] False = scanBits [] (lsbStream pixels)"
  using extractLoop_scan [of "[]" pixels "[]"] by simp

section \<open>The embedding loops write the bit stream\<close>

lemma lsb_setLsb [simp]: "lsb (setLsb x b) = b"
proof -
  have "(x AND 0xFE OR bitValue b) AND 1 = bitValue b"
    by (cases b) (simp_all add: bitValue_def bit.conj_disj_distrib2 and.assoc)
  then show ?thesis
    by (cases b) (simp_all add: lsb_def setLsb_def bitValue_def)
qed

lemma embedInner_done:
  "\<not> (j < 3 \<and> d < length full) \<Longrightarrow> embedInner px full i j d = (px, d)"
  by (subst embedInner.simps) auto

lemma embedInner_step:
  "j < 3 \<Longrightarrow> d < length full \<Longrightarrow>
   embedInner px full i j d =
     embedInner (px[i + j := setLsb (getPixel px (i + j)) (full ! d)]) full i (j + 1) (d + 1)"
  by (subst embedInner.simps) (simp add: setLsb_def)

lemma embedInner_list:
  "i + j = length pre \<Longrightarrow> length (take (3 - j) (drop d full)) \<le> length rest \<Longrightarrow>
   embedInner (pre @ rest) full i j d =
     (pre @ writeBits rest (take (3 - j) (drop d full)), d + min (3 - j) (length full - d))"
proof (induction "3 - j" arbitrary: j pre rest d)
  case 0
  then show ?case by (simp add: embedInner_done)
next
  case (Suc n)
  then have j: "j < 3" by simp
  show ?case
  proof (cases "d < length full")
    case False
    then show ?thesis by (simp add: embedInner_done)
  next
    case True
    then have dropd: "drop d full = full ! d # drop (Suc d) full"
      by (simp add: Cons_nth_drop_Suc)
    from j have "3 - j = Suc (3 - (j + 1))"
      by simp
    then have take_eq: "take (3 - j) (drop d full) = full ! d # take (3 - (j + 1)) (drop (d + 1) full)"
      by (simp add: dropd)
    with Suc.prems obtain x xs where rest: "rest = x # xs"
      by (cases rest) auto
    have upd: "(pre @ rest)[i + j := setLsb (getPixel (pre @ rest) (i + j)) (full ! d)] =
        (pre @ [setLsb x (full ! d)]) @ xs"
      using Suc.prems(1) by (simp add: rest list_update_append)
    have n: "n = 3 - (j + 1)" using Suc(2) by simp
    have len: "length (take (3 - (j + 1)) (drop (d + 1) full)) \<le> length xs"
      using Suc.prems(2) unfolding take_eq rest by simp
    have idx: "i + (j + 1) = length (pre @ [setLsb x (full ! d)])"
      using Suc.prems(1) by simp
    have "embedInner (pre @ rest) full i j d =
        embedInner ((pre @ [setLsb x (full ! d)]) @ xs) full i (j + 1) (d + 1)"
      by (simp only: embedInner_step [OF j True] upd)
    also have "\<dots> = ((pre @ [setLsb x (full ! d)]) @
          writeBits xs (take (3 - (j + 1)) (drop (d + 1) full)),
        (d + 1) + min (3 - (j + 1)) (length full - (d + 1)))"
      by (rule Suc(1) [OF n idx len])
    also have "\<dots> = (pre @ writeBits rest (take (3 - j) (drop d full)),
        d + min (3 - j) (length full - d))"
    proof -
      have "(d + 1) + min (3 - (j + 1)) (length full - (d + 1)) =
          d + min (3 - j) (length full - d)"
        using True j by arith
      then show ?thesis
        by (simp add: take_eq rest)
    qed
    finally show ?thesis .
  qed
qed

lemma lsbStream_writeBits3:
  "length bs \<le> 3 \<Longrightarrow> 4 \<le> length rest \<Longrightarrow>
   lsbStream (writeBits rest bs) = bs @ drop (length bs) (lsbStream rest)"
proof -
  assume bs: "length bs \<le> 3" and "4 \<le> length rest"
  then obtain r g b a rest' where rest: "rest = r # g # b # a # rest'"
    by (cases rest rule: lsbStream.cases) auto
  have "bs = [] \<or> (\<exists>x. bs = [x]) \<or> (\<exists>x y. bs = [x, y]) \<or> (\<exists>x y z. bs = [x, y, z])"
  proof (cases bs)
    case (Cons x xs)
    note c1 = this
    show ?thesis
    proof (cases xs)
      case (Cons y ys)
      note c2 = this
      show ?thesis
      proof (cases ys)
        case (Cons z zs)
        with c1 c2 bs show ?thesis by simp
      qed (simp add: c1 c2)
    qed (simp add: c1)
  qed simp
  then show ?thesis
    by (auto simp add: rest)
qed

lemma embedLoop_done:
  "\<not> (i < length px \<and> d < length full) \<Longrightarrow> embedLoop px full i d = px"
  by (subst embedLoop.simps) auto

lemma embedLoop_step:
  "i < length px \<Longrightarrow> d < length full \<Longrightarrow>
   embedLoop px full i d =
     embedLoop (fst (embedInner px full i 0 d)) full (i + 4) (snd (embedInner px full i 0 d))"
  by (subst embedLoop.simps) simp

lemma writeBits_length [simp]: "length (writeBits xs bs) = length xs"
  by (induction xs bs rule: writeBits.induct) simp_all

lemma writeBits_append:
  "length bs \<le> length xs \<Longrightarrow> writeBits (xs @ ys) bs = writeBits xs bs @ ys"
  by (induction xs bs rule: writeBits.induct) simp_all

lemma lsbStream_first:
  "4 \<le> length rest \<Longrightarrow> lsbStream (take 4 rest) = take 3 (lsbStream rest)"
  by (cases rest rule: lsbStream.cases) simp_all

lemma lsbStream_append4:
  "length w = 4 \<Longrightarrow> lsbStream (w @ r) = lsbStream w @ lsbStream r"
  by (cases w rule: lsbStream.cases) simp_all

lemma lsbStream_length4:
  "length w = 4 \<Longrightarrow> length (lsbStream w) = 3"
  by (cases w rule: lsbStream.cases) simp_all

lemma embedLoop_lsbStream:
  "length full - d \<le> 3 * (length rest div 4) \<Longrightarrow>
   \<exists>rest'. embedLoop (pre @ rest) full (length pre) d = pre @ rest' \<and>
     length rest' = length rest \<and>
     lsbStream rest' = drop d full @ drop (length full - d) (lsbStream rest)"
proof (induction "length rest" arbitrary: pre rest d rule: less_induct)
  case less
  show ?case
  proof (cases "d < length full")
    case False
    then show ?thesis
      by (simp add: embedLoop_done)
  next
    case True
    with less.prems have four: "4 \<le> length rest"
      by (cases "length rest div 4") (auto simp: div_eq_0_iff)
    then have inrange: "length pre < length (pre @ rest)"
      by (cases rest) simp_all
    let ?bs = "take 3 (drop d full)"
    let ?w = "writeBits (take 4 rest) ?bs"
    let ?d' = "d + min 3 (length full - d)"
    have wlen: "length ?w = 4"
      using four by simp
    have rest_split: "rest = take 4 rest @ drop 4 rest"
      by simp
    have "writeBits rest ?bs = ?w @ drop 4 rest"
      using writeBits_append [of ?bs "take 4 rest" "drop 4 rest"] four by simp
    then have inner: "embedInner (pre @ rest) full (length pre) 0 d =
        ((pre @ ?w) @ drop 4 rest, ?d')"
      using embedInner_list [of "length pre" 0 pre d full rest] four by simp
    have shorter: "length (drop 4 rest) < length rest"
      using four by simp
    have "length (drop 4 rest) div 4 = length rest div 4 - 1"
      using four by (simp add: le_div_geq)
    moreover have "1 \<le> length rest div 4"
      using four by (simp add: le_div_geq)
    ultimately have cap: "length full - ?d' \<le> 3 * (length (drop 4 rest) div 4)"
      using less.prems by (simp add: min_def) arith
    have idx: "length (pre @ ?w) = length pre + 4"
      using wlen by simp
    from less(1) [OF shorter cap, of "pre @ ?w"]
    obtain rest' where r: "embedLoop ((pre @ ?w) @ drop 4 rest) full (length pre + 4) ?d' =
        (pre @ ?w) @ rest'" "length rest' = length (drop 4 rest)"
        "lsbStream rest' = drop ?d' full @ drop (length full - ?d') (lsbStream (drop 4 rest))"
      unfolding idx by blast
    have "embedLoop (pre @ rest) full (length pre) d = pre @ (?w @ rest')"
      using embedLoop_step [OF inrange True] r(1) by (simp add: inner)
    moreover have "length (?w @ rest') = length rest"
      using wlen r(2) four by simp
    moreover have "lsbStream (?w @ rest') =
        drop d full @ drop (length full - d) (lsbStream rest)"
    proof -
      have w: "lsbStream ?w = ?bs @ drop (length ?bs) (take 3 (lsbStream rest))"
        using lsbStream_writeBits3 [of ?bs "take 4 rest"] four
        by (simp add: lsbStream_first)
      have whole: "lsbStream rest = take 3 (lsbStream rest) @ lsbStream (drop 4 rest)"
        using lsbStream_drop [of rest] four by (cases rest) simp_all
      have len3: "length (take 3 (lsbStream rest)) = 3"
        using lsbStream_length4 [of "take 4 rest"] four by (simp add: lsbStream_first)
      show ?thesis
      proof (cases "3 \<le> length full - d")
        case True
        then have d': "?d' = d + 3" by simp
        have "drop d full = ?bs @ drop (d + 3) full"
          by (metis add.commute append_take_drop_id drop_drop)
        moreover have "drop (length full - d) (lsbStream rest) =
            drop (length full - (d + 3)) (lsbStream (drop 4 rest))"
          using True len3 by (subst whole) simp
        ultimately show ?thesis
          using True by (simp add: lsbStream_append4 [OF wlen] w r(3) d')
      next
        case False
        then have d': "?d' = length full" and bs: "?bs = drop d full"
          using \<open>d < length full\<close> by simp_all
        have tail: "lsbStream rest' = lsbStream (drop 4 rest)"
          using r(3) unfolding d' by simp
        have "lsbStream (?w @ rest') = lsbStream ?w @ lsbStream rest'"
          by (rule lsbStream_append4 [OF wlen])
        also have "\<dots> = (?bs @ drop (length ?bs) (take 3 (lsbStream rest))) @
            lsbStream (drop 4 rest)"
          by (simp only: w tail)
        also have "\<dots> = drop d full @ drop (length full - d) (take 3 (lsbStream rest)) @
            lsbStream (drop 4 rest)"
          by (simp add: bs)
        also have "\<dots> = drop d full @ drop (length full - d) (lsbStream rest)"
          using False len3 by (subst (2) whole) simp
        finally show ?thesis .
      qed
    qed
    ultimately show ?thesis
      by blast
  qed
qed

lemma embedLoop_stream:
  assumes "length full \<le> 3 * (length pixels div 4)"
  shows "lsbStream (embedLoop pixels full 0 0) = full @ drop (length full) (lsbStream pixels)"
    and "length (embedLoop pixels full 0 0) = length pixels"
  using embedLoop_lsbStream [of full 0 pixels "[]"] assms by auto

lemma lsbStream_length: "length rest mod 4 = 0 \<Longrightarrow> length (lsbStream rest) = 3 * (length rest div 4)"
proof (induction rest rule: lsbStream.induct)
  case (1 r g b a rest)
  then have "length rest mod 4 = 0"
    by (simp add: mod_Suc split: if_splits)
  with 1 show ?case by simp
qed simp_all

lemma embedLoop_truncates:
  "length rest mod 4 = 0 \<Longrightarrow>
   \<exists>rest'. embedLoop (pre @ rest) full (length pre) d = pre @ rest' \<and>
     length rest' = length rest \<and>
     lsbStream rest' =
       take (3 * (length rest div 4)) (drop d full) @ drop (length full - d) (lsbStream rest)"
proof (induction "length rest" arbitrary: pre rest d rule: less_induct)
  case less
  show ?case
  proof (cases "d < length full \<and> rest \<noteq> []")
    case False
    then show ?thesis
      by (auto simp add: embedLoop_done)
  next
    case True
    then have d: "d < length full" and "rest \<noteq> []"
      by simp_all
    with less.prems have four: "4 \<le> length rest"
      by (cases rest rule: lsbStream.cases) simp_all
    then have inrange: "length pre < length (pre @ rest)"
      by (cases rest) simp_all
    let ?bs = "take 3 (drop d full)"
    let ?w = "writeBits (take 4 rest) ?bs"
    let ?d' = "d + min 3 (length full - d)"
    let ?q = "length rest div 4"
    have wlen: "length ?w = 4"
      using four by simp
    have "writeBits rest ?bs = ?w @ drop 4 rest"
      using writeBits_append [of ?bs "take 4 rest" "drop 4 rest"] four by simp
    then have inner: "embedInner (pre @ rest) full (length pre) 0 d =
        ((pre @ ?w) @ drop 4 rest, ?d')"
      using embedInner_list [of "length pre" 0 pre d full rest] four by simp
    have shorter: "length (drop 4 rest) < length rest"
      using four by simp
    have q: "length (drop 4 rest) div 4 = ?q - 1" "1 \<le> ?q"
      using four by (simp_all add: le_div_geq)
    have mod4: "length (drop 4 rest) mod 4 = 0"
      using less.prems four by (simp add: le_mod_geq)
    have idx: "length (pre @ ?w) = length pre + 4"
      using wlen by simp
    from less(1) [OF shorter mod4, of "pre @ ?w"]
    obtain rest' where r: "embedLoop ((pre @ ?w) @ drop 4 rest) full (length pre + 4) ?d' =
        (pre @ ?w) @ rest'" "length rest' = length (drop 4 rest)"
        "lsbStream rest' = take (3 * (?q - 1)) (drop ?d' full) @
           drop (length full - ?d') (lsbStream (drop 4 rest))"
      unfolding idx q by blast
    have "embedLoop (pre @ rest) full (length pre) d = pre @ (?w @ rest')"
      using embedLoop_step [OF inrange d] r(1) by (simp add: inner)
    moreover have "length (?w @ rest') = length rest"
      using wlen r(2) four by simp
    moreover have "lsbStream (?w @ rest') =
        take (3 * ?q) (drop d full) @ drop (length full - d) (lsbStream rest)"
    proof -
      have w: "lsbStream ?w = ?bs @ drop (length ?bs) (take 3 (lsbStream rest))"
        using lsbStream_writeBits3 [of ?bs "take 4 rest"] four
        by (simp add: lsbStream_first)
      have whole: "lsbStream rest = take 3 (lsbStream rest) @ lsbStream (drop 4 rest)"
        using lsbStream_drop [of rest] four by (cases rest) simp_all
      have len3: "length (take 3 (lsbStream rest)) = 3"
        using lsbStream_length4 [of "take 4 rest"] four by (simp add: lsbStream_first)
      have app: "lsbStream (?w @ rest') = lsbStream ?w @ lsbStream rest'"
        by (rule lsbStream_append4 [OF wlen])
      show ?thesis
      proof (cases "3 \<le> length full - d")
        case True
        then have d': "?d' = d + 3" by simp
        have three: "3 * ?q = 3 + 3 * (?q - 1)"
          using q(2) by simp
        have bs3: "length ?bs = 3"
          using True by simp
        have "take (3 * ?q) (drop d full) = ?bs @ take (3 * (?q - 1)) (drop (d + 3) full)"
          unfolding three by (simp add: take_add add.commute)
        moreover have "drop (length full - d) (lsbStream rest) =
            drop (length full - (d + 3)) (lsbStream (drop 4 rest))"
          using True len3 by (subst whole) simp
        moreover have "lsbStream ?w = ?bs"
          unfolding w bs3 using len3 by simp
        ultimately show ?thesis
          unfolding app r(3) d' by simp
      next
        case False
        then have d': "?d' = length full" and bs: "?bs = drop d full"
          using d by simp_all
        have tail: "lsbStream rest' = lsbStream (drop 4 rest)"
          using r(3) unfolding d' by simp
        have short: "take (3 * ?q) (drop d full) = drop d full"
          using False q(2) by simp
        have "lsbStream (?w @ rest') = (?bs @ drop (length ?bs) (take 3 (lsbStream rest))) @
            lsbStream (drop 4 rest)"
          by (simp only: app w tail)
        also have "\<dots> = drop d full @ drop (length full - d) (take 3 (lsbStream rest)) @
            lsbStream (drop 4 rest)"
          by (simp add: bs)
        also have "\<dots> = drop d full @ drop (length full - d) (lsbStream rest)"
          using False len3 by (subst (2) whole) simp
        finally show ?thesis
          unfolding short .
      qed
    qed
    ultimately show ?thesis
      by blast
  qed
qed

lemma embedLoop_stream_any:
  assumes "length pixels mod 4 = 0"
  shows "lsbStream (embedLoop pixels full 0 0) =
      take (3 * (length pixels div 4)) full @ drop (length full) (lsbStream pixels)"
    and "length (embedLoop pixels full 0 0) = length pixels"
  using embedLoop_truncates [of pixels "[]" full 0] assms by auto

section \<open>Where the scan finds the marker\<close>

lemma trailingOnes_snoc [simp]:
  "trailingOnes (acc @ [b]) = (if b then Suc (trailingOnes acc) else 0)"
  by (simp add: trailingOnes_def)

lemma trailingOnes_Nil [simp]: "trailingOnes [] = 0"
  by (simp add: trailingOnes_def)

lemma trailingOnes_le: "trailingOnes acc \<le> length acc"
  unfolding trailingOnes_def
  by (metis length_rev length_takeWhile_le)

lemma take_replicate_True:
  "take k xs = replicate k True \<longleftrightarrow> k \<le> length (takeWhile (\<lambda>b. b) xs)"
proof (induction xs arbitrary: k)
  case Nil
  show ?case by (cases k) simp_all
next
  case (Cons x xs)
  show ?case
    by (cases k) (auto simp: Cons)
qed

lemma endMarker_replicate: "endMarker = replicate 15 True @ [False]"
  by (simp add: endMarker_def numeral_eq_Suc)

lemma marker_test:
  "16 \<le> length (acc @ [b]) \<and> sliceLast (acc @ [b]) 16 = endMarker
     \<longleftrightarrow> \<not> b \<and> 15 \<le> trailingOnes acc"
proof (cases "15 \<le> length acc")
  case False
  with trailingOnes_le [of acc] show ?thesis by simp
next
  case True
  then have last16: "sliceLast (acc @ [b]) 16 = drop (length acc - 15) acc @ [b]"
    by (simp add: sliceLast_def)
  have "drop (length acc - 15) acc = replicate 15 True \<longleftrightarrow> 15 \<le> trailingOnes acc"
  proof -
    have "drop (length acc - 15) acc = replicate 15 True
        \<longleftrightarrow> rev (drop (length acc - 15) acc) = rev (replicate 15 True)"
      by (simp only: rev_is_rev_conv)
    also have "\<dots> \<longleftrightarrow> take 15 (rev acc) = replicate 15 True"
      using True by (simp add: rev_drop)
    also have "\<dots> \<longleftrightarrow> 15 \<le> trailingOnes acc"
      by (simp add: take_replicate_True trailingOnes_def)
    finally show ?thesis .
  qed
  with True show ?thesis
    by (auto simp add: last16 endMarker_replicate)
qed

lemma scanBits_findMarker:
  "scanBits acc bs =
     (case findMarker (trailingOnes acc) (length acc) bs of
        None \<Rightarrow> (acc @ bs, False)
      | Some k \<Rightarrow> (take k (acc @ bs), True))"
proof (induction bs arbitrary: acc)
  case Nil
  show ?case by simp
next
  case (Cons b bs)
  show ?case
  proof (cases "\<not> b \<and> 15 \<le> trailingOnes acc")
    case True
    with trailingOnes_le [of acc] have "15 \<le> length acc" by simp
    with True show ?thesis
      using marker_test [of acc b] by (simp add: sliceButLast_def)
  next
    case False
    then have "\<not> (16 \<le> length (acc @ [b]) \<and> sliceLast (acc @ [b]) 16 = endMarker)"
      using marker_test [of acc b] by blast
    then have step: "scanBits acc (b # bs) = scanBits (acc @ [b]) bs"
      by (simp only: scanBits.simps if_False)
    have fm: "findMarker (trailingOnes acc) (length acc) (b # bs) =
        findMarker (trailingOnes (acc @ [b])) (length (acc @ [b])) bs"
      using False by auto
    have app: "(acc @ [b]) @ bs = acc @ b # bs"
      by simp
    show ?thesis
      unfolding step fm Cons [of "acc @ [b]"] app ..
  qed
qed

lemma findMarker_append_Some:
  "findMarker run n xs = Some k \<Longrightarrow> findMarker run n (xs @ ys) = Some k"
  by (induction xs arbitrary: run n) (simp_all split: if_splits)

lemma extractLoop_findMarker:
  "extractLoop pixels 0 [] False =
     (case findMarker 0 0 (lsbStream pixels) of
        None \<Rightarrow> (lsbStream pixels, False)
      | Some k \<Rightarrow> (take k (lsbStream pixels), True))"
  by (simp add: extractLoop_eq_scan scanBits_findMarker split: option.split)

lemma findMarker_bound: "findMarker run n bs = Some k \<Longrightarrow> k \<le> n + length bs"
proof (induction bs arbitrary: run n)
  case Nil
  then show ?case by simp
next
  case (Cons b bs)
  show ?case
  proof (cases "\<not> b \<and> 15 \<le> run")
    case True
    with Cons.prems show ?thesis by auto
  next
    case False
    with Cons.prems have "findMarker (if b then Suc run else 0) (Suc n) bs = Some k"
      by auto
    from Cons.IH [OF this] show ?thesis by simp
  qed
qed

lemma extractBits_decodeStream: "extractBits pixels = decodeStream (lsbStream pixels)"
proof (cases "findMarker 0 0 (lsbStream pixels)")
  case None
  then show ?thesis
    by (simp add: extractBits_def decodeStream_def extractLoop_findMarker)
next
  case (Some k)
  then have "k \<le> length (lsbStream pixels)"
    using findMarker_bound by fastforce
  with Some show ?thesis
    by (simp add: extractBits_def decodeStream_def extractLoop_findMarker min_def)
qed

section \<open>Bits and numbers, bits and strings\<close>

lemma binaryToNumber_snoc:
  "binaryToNumber (bs @ [b]) = 2 * binaryToNumber bs + (if b then 1 else 0)"
  by (simp add: binaryToNumber_def)

lemma binaryToNumber_toBinary: "binaryToNumber (toBinary n) = n"
proof (induction n rule: toBinary.induct)
  case (1 n)
  show ?case
  proof (cases "n < 2")
    case True
    then have "n = 0 \<or> n = 1" by auto
    then show ?thesis
      by (subst toBinary.simps) (auto simp: binaryToNumber_def)
  next
    case False
    with 1 have "binaryToNumber (toBinary (n div 2)) = n div 2" by simp
    moreover have "2 * (n div 2) + (if odd n then 1 else 0) = n"
      by presburger
    ultimately show ?thesis
      using False by (subst toBinary.simps) (simp add: binaryToNumber_snoc)
  qed
qed

lemma binaryToNumber_zeros:
  "binaryToNumber (replicate k False @ bs) = binaryToNumber bs"
  by (induction k) (simp_all add: binaryToNumber_def)

lemma binaryToNumber_padStart:
  "binaryToNumber (padStart k (toBinary n)) = n"
  by (simp add: padStart_def binaryToNumber_zeros binaryToNumber_toBinary)

lemma toBinary_length: "0 < k \<Longrightarrow> n < 2 ^ k \<Longrightarrow> length (toBinary n) \<le> k"
proof (induction n arbitrary: k rule: toBinary.induct)
  case (1 n)
  show ?case
  proof (cases "n < 2")
    case True
    with 1(2) show ?thesis
      by (subst toBinary.simps) simp
  next
    case False
    from 1(2) obtain k' where k: "k = Suc k'"
      by (cases k) auto
    with False 1(3) have "0 < k'"
      by (cases k') auto
    moreover from 1(3) k have "n div 2 < 2 ^ k'"
      by simp
    ultimately have "length (toBinary (n div 2)) \<le> k'"
      using 1(1) False by simp
    with False k show ?thesis
      by (subst toBinary.simps) simp
  qed
qed

lemma padStart_length: "length s \<le> n \<Longrightarrow> length (padStart n s) = n"
  by (simp add: padStart_def)

lemma numberToBinary_length: "n < 2 ^ 32 \<Longrightarrow> length (numberToBinary n 32) = 32"
  using toBinary_length [of 32 n] by (simp add: numberToBinary_def padStart_length)

lemma charBits_length: "c < 256 \<Longrightarrow> length (padStart 8 (toBinary c)) = 8"
  using toBinary_length [of 8 c] by (simp add: padStart_length)

lemma stringToBinary_length:
  "list_all (\<lambda>c. c < 256) s \<Longrightarrow> length (stringToBinary s) = 8 * length s"
  by (induction s) (simp_all add: stringToBinary_def charBits_length)

lemma binaryToStringFrom_append:
  "list_all (\<lambda>c. c < 256) s \<Longrightarrow>
   binaryToStringFrom (pre @ stringToBinary s) (length pre) = s"
proof (induction s arbitrary: pre)
  case Nil
  show ?case
    by (subst binaryToStringFrom.simps) (simp add: stringToBinary_def)
next
  case (Cons c s)
  let ?cb = "padStart 8 (toBinary c)"
  from Cons.prems have c: "c < 256" and s: "list_all (\<lambda>c. c < 256) s"
    by simp_all
  have len: "length ?cb = 8"
    using c by (rule charBits_length)
  have split: "stringToBinary (c # s) = ?cb @ stringToBinary s"
    by (simp add: stringToBinary_def)
  have chunk: "slice (pre @ ?cb @ stringToBinary s) (length pre) (length pre + 8) = ?cb"
    by (simp add: slice_def len)
  have ih: "binaryToStringFrom ((pre @ ?cb) @ stringToBinary s) (length (pre @ ?cb)) = s"
    using Cons.IH [OF s] .
  show ?case
    apply (subst binaryToStringFrom.simps)
    using ih by (simp add: split chunk len binaryToNumber_padStart)
qed

lemma binaryToString_stringToBinary:
  "list_all (\<lambda>c. c < 256) s \<Longrightarrow> binaryToString (stringToBinary s) = s"
  using binaryToStringFrom_append [of s "[]"] by (simp add: binaryToString_def)

lemma fullBinaryData_length:
  "list_all (\<lambda>c. c < 256) s \<Longrightarrow> length s < 2 ^ 32 \<Longrightarrow>
   length (fullBinaryData s) = 32 + 8 * length s + 16"
  by (simp add: fullBinaryData_def numberToBinary_length stringToBinary_length endMarker_def)

lemma toBinary_long: "2 ^ k \<le> n \<Longrightarrow> k < length (toBinary n)"
proof (induction n arbitrary: k rule: toBinary.induct)
  case (1 n)
  show ?case
  proof (cases k)
    case 0
    then show ?thesis
      by (subst toBinary.simps) simp
  next
    case (Suc k')
    with 1(2) have twice: "2 * 2 ^ k' \<le> n"
      by simp
    have "(1::nat) \<le> 2 ^ k'"
      by simp
    with twice have big: "\<not> n < 2"
      by linarith
    from twice have half: "2 ^ k' \<le> n div 2"
      by linarith
    from 1(1) [OF big half] have "k' < length (toBinary (n div 2))" .
    with Suc big show ?thesis
      by (subst toBinary.simps) simp
  qed
qed

lemma charBits_wide: "8 \<le> length (padStart 8 (toBinary c))"
  by (simp add: padStart_def)

lemma charBits_exact: "length (padStart 8 (toBinary c)) = 8 \<Longrightarrow> c < 256"
proof (rule ccontr)
  assume len: "length (padStart 8 (toBinary c)) = 8" and "\<not> c < 256"
  then have "2 ^ 8 \<le> c"
    by simp
  then have "8 < length (toBinary c)"
    by (rule toBinary_long)
  with len show False
    by (simp add: padStart_def)
qed

lemma stringToBinary_wide: "8 * length s \<le> length (stringToBinary s)"
proof (induction s)
  case Nil
  show ?case by (simp add: stringToBinary_def)
next
  case (Cons c s)
  then show ?case
    using charBits_wide [of c] by (simp add: stringToBinary_def)
qed

lemma stringToBinary_exact:
  "length (stringToBinary s) = 8 * length s \<Longrightarrow> list_all (\<lambda>c. c < 256) s"
proof (induction s)
  case Nil
  show ?case by simp
next
  case (Cons c s)
  have split: "length (stringToBinary (c # s)) =
      length (padStart 8 (toBinary c)) + length (stringToBinary s)"
    by (simp add: stringToBinary_def)
  with Cons.prems charBits_wide [of c] stringToBinary_wide [of s]
  have "length (padStart 8 (toBinary c)) = 8" and "length (stringToBinary s) = 8 * length s"
    by simp_all
  with Cons.IH show ?case
    by (simp add: charBits_exact)
qed

lemma numberToBinary_wide: "32 \<le> length (numberToBinary n 32)"
  by (simp add: numberToBinary_def padStart_def)

lemma numberToBinary_exact: "length (numberToBinary n 32) = 32 \<Longrightarrow> n < 2 ^ 32"
proof (rule ccontr)
  assume len: "length (numberToBinary n 32) = 32" and "\<not> n < 2 ^ 32"
  then have "2 ^ 32 \<le> n"
    by simp
  then have "32 < length (toBinary n)"
    by (rule toBinary_long)
  with len show False
    by (simp add: numberToBinary_def padStart_def)
qed

lemma fullBinaryData_exact:
  assumes "length (fullBinaryData s) = 32 + 8 * length s + 16"
  shows "list_all (\<lambda>c. c < 256) s" and "length s < 2 ^ 32"
proof -
  have "length (fullBinaryData s) =
      length (numberToBinary (length s) 32) + length (stringToBinary s) + 16"
    by (simp add: fullBinaryData_def endMarker_def)
  with assms numberToBinary_wide [of "length s"] stringToBinary_wide [of s]
  have prefix: "length (numberToBinary (length s) 32) = 32"
    and chars: "length (stringToBinary s) = 8 * length s"
    by simp_all
  from chars show "list_all (\<lambda>c. c < 256) s"
    by (rule stringToBinary_exact)
  from prefix show "length s < 2 ^ 32"
    by (rule numberToBinary_exact)
qed

lemma binaryToNumber_bound: "binaryToNumber bs < 2 ^ length bs"
proof (induction bs rule: rev_induct)
  case Nil
  show ?case by (simp add: binaryToNumber_def)
next
  case (snoc b bs)
  then show ?case
    by (simp add: binaryToNumber_snoc)
qed

lemma binaryToStringFrom_latin1: "list_all (\<lambda>c. c < 256) (binaryToStringFrom binary i)"
proof (induction binary i rule: binaryToStringFrom.induct)
  case (1 binary i)
  show ?case
  proof (cases "i < length binary")
    case True
    have "length (slice binary i (i + 8)) \<le> 8"
      by (simp add: slice_def)
    then have "(2::nat) ^ length (slice binary i (i + 8)) \<le> 2 ^ 8"
      by (rule power_increasing) simp
    with binaryToNumber_bound [of "slice binary i (i + 8)"]
    have "binaryToNumber (slice binary i (i + 8)) < 256"
      by simp
    with True 1 show ?thesis
      by (subst binaryToStringFrom.simps) simp
  next
    case False
    then show ?thesis
      by (subst binaryToStringFrom.simps) simp
  qed
qed

lemma stringToBinary_split:
  "s = a @ c # b \<Longrightarrow>
   length (stringToBinary s) =
     length (stringToBinary a) + length (stringToBinary [c]) + length (stringToBinary b)"
  by (simp add: stringToBinary_def)

section \<open>Frames without an early marker\<close>

lemma fullBinaryData_frame: "fullBinaryData s = frame (length s) s"
  by (simp add: fullBinaryData_def frame_def)

lemma findMarker_markerFree:
  "markerFree run bs \<Longrightarrow>
   findMarker run n (bs @ ys) = findMarker (runAfter run bs) (n + length bs) ys"
  by (induction bs arbitrary: run n) auto

lemma markerFree_append:
  "markerFree run (xs @ ys) \<longleftrightarrow> markerFree run xs \<and> markerFree (runAfter run xs) ys"
  by (induction xs arbitrary: run) auto

lemma runAfter_append: "runAfter run (xs @ ys) = runAfter (runAfter run xs) ys"
  by (induction xs arbitrary: run) auto

lemma runAfter_le: "runAfter run bs \<le> run + length bs"
proof (induction bs arbitrary: run)
  case (Cons b bs)
  from Cons [of "if b then Suc run else 0"] show ?case by auto
qed simp

lemma markerFree_short: "run + length bs < 15 \<Longrightarrow> markerFree run bs"
proof (induction bs arbitrary: run)
  case (Cons b bs)
  from Cons.prems have "(if b then Suc run else 0) + length bs < 15" by auto
  from Cons.IH [OF this] Cons.prems show ?case by auto
qed simp

lemma markerFree_zeros: "run < 15 \<Longrightarrow> markerFree run (replicate k False)"
  by (induction k arbitrary: run) auto

lemma runAfter_zeros: "0 < k \<Longrightarrow> runAfter run (replicate k False) = 0"
proof (induction k arbitrary: run)
  case (Suc k)
  show ?case
  proof (cases k)
    case 0
    then show ?thesis by simp
  next
    case (Suc k')
    with Suc.IH [of 0] show ?thesis by simp
  qed
qed simp

lemma padded_bits:
  assumes "0 < m" and "c < 2 ^ m" and "m < 15" and "m < w" and "run < 15"
  shows "markerFree run (padStart w (toBinary c))"
    and "runAfter run (padStart w (toBinary c)) < 15"
proof -
  have len: "length (toBinary c) \<le> m"
    using assms(1,2) by (rule toBinary_length)
  with assms(4) have pad: "padStart w (toBinary c) =
      replicate (w - length (toBinary c)) False @ toBinary c" and k: "0 < w - length (toBinary c)"
    by (simp_all add: padStart_def)
  have short: "0 + length (toBinary c) < 15"
    using len assms(3) by simp
  show "markerFree run (padStart w (toBinary c))"
    unfolding pad markerFree_append runAfter_zeros [OF k]
    using markerFree_zeros [OF assms(5)] markerFree_short [OF short] by simp
  show "runAfter run (padStart w (toBinary c)) < 15"
    unfolding pad runAfter_append runAfter_zeros [OF k]
    using runAfter_le [of 0 "toBinary c"] short by simp
qed

lemma ascii_bits:
  "list_all (\<lambda>c. c < 128) a \<Longrightarrow> run < 15 \<Longrightarrow>
   markerFree run (stringToBinary a) \<and> runAfter run (stringToBinary a) < 15"
proof (induction a arbitrary: run)
  case Nil
  then show ?case by (simp add: stringToBinary_def)
next
  case (Cons c a)
  then have c: "c < 2 ^ 7" and a: "list_all (\<lambda>c. c < 128) a"
    by simp_all
  have split: "stringToBinary (c # a) = padStart 8 (toBinary c) @ stringToBinary a"
    by (simp add: stringToBinary_def)
  have one: "markerFree run (padStart 8 (toBinary c))"
    and two: "runAfter run (padStart 8 (toBinary c)) < 15"
    using padded_bits [of 7 c 8 run] c Cons.prems(2) by simp_all
  from Cons.IH [OF a two] one show ?case
    by (simp add: split markerFree_append runAfter_append)
qed

lemma prefix_bits:
  assumes "n < 16384"
  shows "markerFree 0 (numberToBinary n 32)" and "runAfter 0 (numberToBinary n 32) < 15"
  using padded_bits [of 14 n 32 0] assms by (simp_all add: numberToBinary_def)

lemma findMarker_endMarker: "findMarker run n (endMarker @ ys) = Some n"
  by (simp add: endMarker_def)

lemma ascii_frame_marker:
  assumes "list_all (\<lambda>c. c < 128) t" and "n < 16384"
  shows "findMarker 0 0 (frame n t @ ys) = Some (32 + 8 * length t)"
proof -
  let ?pd = "numberToBinary n 32 @ stringToBinary t"
  have latin1: "list_all (\<lambda>c. c < 256) t"
    using assms(1) by (induction t) auto
  have "n < 2 ^ 32"
    using assms(2) by simp
  then have len: "length ?pd = 32 + 8 * length t"
    using latin1 by (simp add: numberToBinary_length stringToBinary_length)
  have free: "markerFree 0 ?pd"
    using prefix_bits [OF assms(2)] ascii_bits [OF assms(1)]
    by (simp add: markerFree_append)
  have "findMarker 0 0 (frame n t @ ys) = findMarker 0 0 (?pd @ (endMarker @ ys))"
    by (simp add: frame_def)
  also have "\<dots> = findMarker (runAfter 0 ?pd) (0 + length ?pd) (endMarker @ ys)"
    using free by (rule findMarker_markerFree)
  also have "\<dots> = Some (32 + 8 * length t)"
    unfolding findMarker_endMarker len by simp
  finally show ?thesis .
qed

section \<open>Decoding a frame\<close>

lemma decodeStream_found:
  assumes latin1: "list_all (\<lambda>c. c < 256) a"
    and n: "n < 2 ^ 32"
    and short: "length a \<le> n"
    and found: "findMarker 0 0 (numberToBinary n 32 @ stringToBinary a @ tail) =
      Some (32 + 8 * length a)"
  shows "decodeStream (numberToBinary n 32 @ stringToBinary a @ tail) = Some a"
proof -
  let ?prefix = "numberToBinary n 32"
  let ?data = "stringToBinary a"
  have plen: "length ?prefix = 32"
    using n by (rule numberToBinary_length)
  have dlen: "length ?data = 8 * length a"
    using latin1 by (rule stringToBinary_length)
  have cut: "take (32 + 8 * length a) (?prefix @ ?data @ tail) = ?prefix @ ?data"
    by (simp add: plen dlen)
  have pre: "slice (?prefix @ ?data) 0 32 = ?prefix"
    by (simp add: slice_def plen)
  have num: "binaryToNumber ?prefix = n"
    by (simp add: numberToBinary_def binaryToNumber_padStart)
  have dat: "slice (?prefix @ ?data) 32 (32 + n * 8) = ?data"
    using short by (simp add: slice_def plen dlen)
  show ?thesis
    unfolding decodeStream_def found option.case cut pre num dat
    by (simp add: binaryToString_stringToBinary [OF latin1])
qed

lemma ascii_latin1:
  "list_all (\<lambda>c. c < 128) (t :: jsstring) \<Longrightarrow> list_all (\<lambda>c. c < 256) t"
  by (induction t) auto

lemma decodeStream_frame:
  assumes "list_all (\<lambda>c. c < 256) t" and "n < 2 ^ 32" and "length t \<le> n"
    and "findMarker 0 0 (frame n t) = Some (32 + 8 * length t)"
  shows "decodeStream (frame n t @ rest) = Some t"
proof -
  have "findMarker 0 0 (frame n t @ rest) = Some (32 + 8 * length t)"
    using assms(4) by (rule findMarker_append_Some)
  then show ?thesis
    using decodeStream_found [OF assms(1-3), of "endMarker @ rest"]
    by (simp add: frame_def)
qed

lemma stringToBinary_append:
  "stringToBinary (a @ b) = stringToBinary a @ stringToBinary b"
  by (simp add: stringToBinary_def)

lemmas toBinary_eval =
  toBinary.simps [of 0] toBinary.simps [of 1] toBinary.simps [of "Suc 0"]
  toBinary.simps [where n = "numeral k" for k]

lemma marker_chars:
  "stringToBinary (255 # 254 # b) = endMarker @ stringToBinary b"
  by (simp add: stringToBinary_def padStart_def toBinary_eval endMarker_def)

lemma early_marker:
  assumes ascii: "list_all (\<lambda>c. c < 128) a" and n: "n < 16384" and short: "length a \<le> n"
  shows "decodeStream (frame n (a @ 255 # 254 # b) @ rest) = Some a"
proof -
  let ?tail = "endMarker @ stringToBinary b @ endMarker @ rest"
  have eq: "frame n (a @ 255 # 254 # b) @ rest =
      numberToBinary n 32 @ stringToBinary a @ ?tail"
    by (simp add: frame_def stringToBinary_append marker_chars)
  have "findMarker 0 0 (numberToBinary n 32 @ stringToBinary a @ ?tail) =
      Some (32 + 8 * length a)"
    using ascii_frame_marker [OF ascii n, of "stringToBinary b @ endMarker @ rest"]
    by (simp add: frame_def)
  moreover have "n < 2 ^ 32"
    using n by simp
  ultimately show ?thesis
    unfolding eq using decodeStream_found [OF ascii_latin1 [OF ascii] _ short] by blast
qed

lemma extractBits_embedLoop:
  "length f \<le> 3 * (length px div 4) \<Longrightarrow>
   extractBits (embedLoop px f 0 0) = decodeStream (f @ drop (length f) (lsbStream px))"
  by (simp add: extractBits_decodeStream embedLoop_stream(1))

lemma findMarker_end:
  "findMarker run n xs = Some k \<Longrightarrow> run \<le> n \<Longrightarrow> k + 16 \<le> n + length xs"
proof (induction xs arbitrary: run n)
  case Nil
  then show ?case by simp
next
  case (Cons b bs)
  show ?case
  proof (cases "\<not> b \<and> 15 \<le> run")
    case True
    with Cons.prems show ?thesis by auto
  next
    case False
    with Cons.prems have "findMarker (if b then Suc run else 0) (Suc n) bs = Some k"
      by auto
    from Cons.IH [OF this] Cons.prems(2) show ?thesis by auto
  qed
qed

lemma findMarker_proper_prefix:
  assumes "findMarker 0 0 f = Some (length f - 16)" and "16 \<le> length f" and "j < length f"
  shows "findMarker 0 0 (take j f) = None"
proof (cases "findMarker 0 0 (take j f)")
  case (Some k)
  then have "findMarker 0 0 (take j f @ drop j f) = Some k"
    by (rule findMarker_append_Some)
  with assms(1) have "k = length f - 16"
    by simp
  moreover from findMarker_end [OF Some] have "k + 16 \<le> length (take j f)"
    by simp
  ultimately show ?thesis
    using assms(2,3) by simp
qed simp

lemma extractBits_overflow:
  assumes "length px mod 4 = 0" and "3 * (length px div 4) < length f"
    and "findMarker 0 0 f = Some (length f - 16)" and "16 \<le> length f"
  shows "extractBits (embedLoop px f 0 0) = None"
proof -
  have "length (lsbStream px) = 3 * (length px div 4)"
    using assms(1) by (rule lsbStream_length)
  with assms(2) have "drop (length f) (lsbStream px) = []"
    by simp
  then have "lsbStream (embedLoop px f 0 0) = take (3 * (length px div 4)) f"
    using embedLoop_stream_any(1) [OF assms(1), of f] by simp
  then show ?thesis
    using findMarker_proper_prefix [OF assms(3,4,2)]
    by (simp add: extractBits_decodeStream decodeStream_def)
qed

section \<open>Selecting the payload\<close>

lemma js_eq_iff [simp]: "js s = js t \<longleftrightarrow> s = t"
  by (simp add: js_def inj_map_eq_map inj_on_def)

lemma js_Nil_iff [simp]: "js s = [] \<longleftrightarrow> s = []"
  by (simp add: js_def)

lemma selectResult_buildPayload:
  "selectResult (envelopeJs (buildPayload ent opts p)) = payloadJs p"
  by (simp add: buildPayload_def selectResult_def isRealEntry_def payloadJs_def)

section \<open>Embedding within the capacity\<close>

lemma embedBits_fits:
  assumes latin1: "list_all (\<lambda>c. c < 256) s"
    and len: "length s < 2 ^ 32"
    and marker: "findMarker 0 0 (fullBinaryData s) = Some (32 + 8 * length s)"
    and cap: "32 + 8 * length s + 16 \<le> 3 * (length pixels div 4)"
  shows "embedBits pixels s = Inr (embedLoop pixels (fullBinaryData s) 0 0)"
    and "length (embedLoop pixels (fullBinaryData s) 0 0) = length pixels"
    and "extractBits (embedLoop pixels (fullBinaryData s) 0 0) = Some s"
proof -
  let ?full = "fullBinaryData s"
  have flen: "length ?full = 32 + 8 * length s + 16"
    using latin1 len by (rule fullBinaryData_length)
  with cap have fits: "length ?full \<le> 3 * (length pixels div 4)"
    by simp
  moreover have "3 * (length pixels div 4) \<le> length pixels * 3"
    by simp
  ultimately have "\<not> length ?full > length pixels * 3"
    by linarith
  then show "embedBits pixels s = Inr (embedLoop pixels ?full 0 0)"
    by (simp add: embedBits_def)
  show "length (embedLoop pixels ?full 0 0) = length pixels"
    using fits by (rule embedLoop_stream(2))
  have "decodeStream (frame (length s) s @ drop (length ?full) (lsbStream pixels)) = Some s"
    using latin1 len _ marker [unfolded fullBinaryData_frame]
    by (rule decodeStream_frame) simp
  then show "extractBits (embedLoop pixels ?full 0 0) = Some s"
    using extractBits_embedLoop [OF fits] by (simp add: fullBinaryData_frame)
qed

lemma embedded_file_extracts:
  assumes readable: "fs imagePath = Some imageBuffer"
    and decode: "loadImageData rt imageBuffer = Some img"
    and lossless: "loadImageData rt (toPngBuffer rt
        (img\<lparr>rgba := embedLoop (rgba img)
           (fullBinaryData (JSON_stringify (buildPayload ent opts data))) 0 0\<rparr>)) =
      Some (img\<lparr>rgba := embedLoop (rgba img)
           (fullBinaryData (JSON_stringify (buildPayload ent opts data))) 0 0\<rparr>)"
    and latin1: "list_all (\<lambda>c. c < 256) (JSON_stringify (buildPayload ent opts data))"
    and len: "length (JSON_stringify (buildPayload ent opts data)) < 2 ^ 32"
    and marker: "findMarker 0 0 (fullBinaryData (JSON_stringify (buildPayload ent opts data))) =
      Some (32 + 8 * length (JSON_stringify (buildPayload ent opts data)))"
    and cap: "32 + 8 * length (JSON_stringify (buildPayload ent opts data)) + 16
      \<le> 3 * (length (rgba img) div 4)"
    and parse: "JSON_parse rt (JSON_stringify (buildPayload ent opts data)) =
      Some (envelopeJs (buildPayload ent opts data))"
  shows "\<exists>fs'. embedData rt ent now fs imagePath data opts = Inr (TempEmbedded now, fs')
    \<and> extractData rt fs' (TempEmbedded now) = payloadJs data"
proof -
  let ?s = "JSON_stringify (buildPayload ent opts data)"
  let ?px = "embedLoop (rgba img) (fullBinaryData ?s) 0 0"
  let ?fs = "fs(TempEmbedded now \<mapsto> toPngBuffer rt (img\<lparr>rgba := ?px\<rparr>))"
  note core = embedBits_fits [OF latin1 len marker cap]
  have "embedData rt ent now fs imagePath data opts = Inr (TempEmbedded now, ?fs)"
    by (simp add: embedData_def embedTry_def readable decode core(1))
  moreover have "extractData rt ?fs (TempEmbedded now) = payloadJs data"
    by (simp add: extractData_def extractTry_def lossless core(3) parse selectResult_buildPayload)
  ultimately show ?thesis
    by blast
qed

lemma embedBits_within_capacity:
  assumes latin1: "list_all (\<lambda>c. c < 256) s"
    and len: "length s < 2 ^ 32"
    and cap: "32 + 8 * length s + 16 \<le> 3 * (length pixels div 4)"
  shows "embedBits pixels s = Inr (embedLoop pixels (fullBinaryData s) 0 0)"
    and "length (embedLoop pixels (fullBinaryData s) 0 0) = length pixels"
    and "extractBits (embedLoop pixels (fullBinaryData s) 0 0) =
      decodeStream (frame (length s) s @ drop (32 + 8 * length s + 16) (lsbStream pixels))"
proof -
  let ?full = "fullBinaryData s"
  have flen: "length ?full = 32 + 8 * length s + 16"
    using latin1 len by (rule fullBinaryData_length)
  with cap have fits: "length ?full \<le> 3 * (length pixels div 4)"
    by simp
  moreover have "3 * (length pixels div 4) \<le> length pixels * 3"
    by simp
  ultimately have "\<not> length ?full > length pixels * 3"
    by linarith
  then show "embedBits pixels s = Inr (embedLoop pixels ?full 0 0)"
    by (simp add: embedBits_def)
  show "length (embedLoop pixels ?full 0 0) = length pixels"
    using fits by (rule embedLoop_stream(2))
  show "extractBits (embedLoop pixels ?full 0 0) =
      decodeStream (frame (length s) s @ drop (32 + 8 * length s + 16) (lsbStream pixels))"
    using extractBits_embedLoop [OF fits] flen by (simp add: fullBinaryData_frame)
qed

lemma frame_length:
  "list_all (\<lambda>c. c < 256) t \<Longrightarrow> n < 2 ^ 32 \<Longrightarrow> length (frame n t) = 32 + 8 * length t + 16"
  by (simp add: frame_def numberToBinary_length stringToBinary_length endMarker_def)

lemma extractData_decodeStream:
  assumes "fs imagePath = Some content" and "loadImageData rt content = Some img"
  shows "extractData rt fs imagePath =
     (case decodeStream (lsbStream (rgba img)) of
        None \<Rightarrow> Null
      | Some dataString \<Rightarrow>
          (case JSON_parse rt dataString of None \<Rightarrow> Null | Some extracted \<Rightarrow> selectResult extracted))"
  using assms
  by (simp add: extractData_def extractTry_def extractBits_decodeStream split: option.split)

lemma extractBits_latin1: "extractBits pixels = Some t \<Longrightarrow> list_all (\<lambda>c. c < 256) t"
  by (auto simp add: extractBits_decodeStream decodeStream_def binaryToString_def
      binaryToStringFrom_latin1 split: option.splits if_splits)

lemma wide_text_unparsed:
  assumes "\<not> list_all (\<lambda>c. c < 256) s"
    and "fs imagePath = Some content" and "loadImageData rt content = Some img"
    and "JSON_parse rt = map_of [(s, v)]"
  shows "extractData rt fs imagePath = Null"
proof (cases "extractBits (rgba img)")
  case None
  with assms(2,3) show ?thesis
    by (simp add: extractData_def extractTry_def)
next
  case (Some t)
  then have "list_all (\<lambda>c. c < 256) t"
    by (rule extractBits_latin1)
  with assms(1) have "s \<noteq> t"
    by auto
  with Some assms(2,3,4) show ?thesis
    by (simp add: extractData_def extractTry_def)
qed

lemma decodeStream_truncated:
  assumes "findMarker 0 0 stream = Some k" and "32 \<le> k"
    and "k - 32 < 8 * binaryToNumber (take 32 stream)"
  shows "decodeStream stream = Some (binaryToString (drop 32 (take k stream)))"
proof -
  have "take 32 (take k stream) = take 32 stream"
    using assms(2) by (simp add: min_def)
  moreover have "length (drop 32 (take k stream)) \<le> k - 32"
    by simp
  with assms(3) have "take (binaryToNumber (take 32 stream) * 8) (drop 32 (take k stream)) =
      drop 32 (take k stream)"
    by simp
  ultimately show ?thesis
    using assms(1,2) by (simp add: decodeStream_def slice_def)
qed

section \<open>Entries, decoys and the missing export\<close>

lemma find_filter_hd:
  "find P xs = (case filter P xs of [] \<Rightarrow> None | x # ys \<Rightarrow> Some x)"
  by (induction xs) simp_all

lemma hexDigit_hex: "d < 16 \<Longrightarrow> isHexChar (hexDigit d)"
  by (simp add: hexDigit_def isHexChar_def)

lemma toHex_length: "length (toHex buffer) = 2 * length buffer"
  by (induction buffer) (simp_all add: toHex_def)

lemma toHex_hex: "list_all isHexChar (toHex buffer)"
proof (induction buffer)
  case Nil
  show ?case by (simp add: toHex_def)
next
  case (Cons b buffer)
  have "unat b < 256"
    using unsigned_less [of b] by simp
  then have "unat b div 16 < 16"
    by simp
  with Cons show ?case
    by (simp add: toHex_def hexDigit_hex)
qed

lemma randomBytes32_length: "length (randomBytes32 ent call) = 32"
  by (simp add: randomBytes32_def)

lemma issueFromStep3_throws:
  "issueFromStep3 combine rt ent now nowIso ch fs req filePath certHash sig issuer signerId =
     (IssueStatus 500 ''Failed to issue certificate'', fs)"
  by (simp add: issueFromStep3_def exportedByUtilsHash_def utilsHashExports_def)

section \<open>The example inputs evaluated\<close>

lemmas text_eval = js_def quoteJSON_def escapeUnit_def isSurrogate_def member_def
  stringifyPayload_def buildPayload_def examplePayload_def markerPayload_def
  exampleEntropy_def plainOptions_def noiseOptions_def decoyTotal_def makeDecoy_def
  randomBytes32_def toHex_def hexDigit_def slice_def upt_conv_Cons

lemma blackPixels_length [simp]: "length (blackPixels n) = 4 * n"
  by (induction n) (simp_all add: blackPixels_def)

lemma rawDecode_rawEncode:
  "w < 256 \<Longrightarrow> h < 256 \<Longrightarrow> length px = 4 * w * h \<Longrightarrow>
   rawDecode (rawEncode \<lparr>width = w, height = h, rgba = px\<rparr>) =
     Some \<lparr>width = w, height = h, rgba = px\<rparr>"
  by (simp add: rawDecode_def rawEncode_def unat_of_nat)

lemma blackImage_decodes:
  "w < 256 \<Longrightarrow> h < 256 \<Longrightarrow>
   rawDecode (blackImage w h) = Some \<lparr>width = w, height = h, rgba = blackPixels (w * h)\<rparr>"
  unfolding blackImage_def blackPixels_def [symmetric]
  by (rule rawDecode_rawEncode) simp_all

lemma exampleRuntime_simps [simp]:
  "loadImageData (exampleRuntime parses) = rawDecode"
  "toPngBuffer (exampleRuntime parses) = rawEncode"
  "JSON_parse (exampleRuntime parses) = map_of parses"
  "sha256hex (exampleRuntime parses) = exampleDigest"
  by (simp_all add: exampleRuntime_def)

lemma plain_text_ascii:
  "list_all (\<lambda>c. c < 128) (JSON_stringify (buildPayload exampleEntropy plainOptions examplePayload))"
  by (simp add: text_eval)

lemma plain_text_length:
  "length (JSON_stringify (buildPayload exampleEntropy plainOptions examplePayload)) = 148"
  by (simp add: text_eval)

lemma noise_text_ascii:
  "list_all (\<lambda>c. c < 128) (JSON_stringify (buildPayload exampleEntropy noiseOptions examplePayload))"
  by (simp add: text_eval)

lemma noise_text_length:
  "length (JSON_stringify (buildPayload exampleEntropy noiseOptions examplePayload)) = 382"
  by (simp add: text_eval)

lemma marker_text_split:
  "JSON_stringify (buildPayload exampleEntropy plainOptions markerPayload) =
     take 123 (JSON_stringify (buildPayload exampleEntropy plainOptions markerPayload))
       @ 255 # 254 # drop 125 (JSON_stringify (buildPayload exampleEntropy plainOptions markerPayload))"
  by (simp add: text_eval)

lemma marker_text_ascii:
  "list_all (\<lambda>c. c < 128)
     (take 123 (JSON_stringify (buildPayload exampleEntropy plainOptions markerPayload)))"
  by (simp add: text_eval)

lemma marker_text_latin1:
  "list_all (\<lambda>c. c < 256) (JSON_stringify (buildPayload exampleEntropy plainOptions markerPayload))"
  by (simp add: text_eval)

lemma marker_text_length:
  "length (JSON_stringify (buildPayload exampleEntropy plainOptions markerPayload)) = 144"
  by (simp add: text_eval)

lemma wide_text_split:
  "JSON_stringify (buildPayload exampleEntropy plainOptions widePayload) =
     take 123 (JSON_stringify (buildPayload exampleEntropy plainOptions widePayload))
       @ 321 # drop 124 (JSON_stringify (buildPayload exampleEntropy plainOptions widePayload))"
  by (simp add: text_eval widePayload_def)

lemma wide_text_ascii:
  "list_all (\<lambda>c. c < 128)
     (take 123 (JSON_stringify (buildPayload exampleEntropy plainOptions widePayload)))"
  "list_all (\<lambda>c. c < 128)
     (drop 124 (JSON_stringify (buildPayload exampleEntropy plainOptions widePayload)))"
  by (simp_all add: text_eval widePayload_def)

lemma wide_text_length:
  "length (JSON_stringify (buildPayload exampleEntropy plainOptions widePayload)) = 143"
  by (simp add: text_eval widePayload_def)

lemma wide_text_wide:
  "\<not> list_all (\<lambda>c. c < 256) (JSON_stringify (buildPayload exampleEntropy plainOptions widePayload))"
  by (subst wide_text_split) simp

lemma wide_frame_length:
  "length (fullBinaryData (JSON_stringify (buildPayload exampleEntropy plainOptions widePayload))) =
     1193"
proof -
  let ?s = "JSON_stringify (buildPayload exampleEntropy plainOptions widePayload)"
  have "length (stringToBinary ?s) =
      length (stringToBinary (take 123 ?s)) + length (stringToBinary [321])
        + length (stringToBinary (drop 124 ?s))"
    using stringToBinary_split [OF wide_text_split] .
  moreover have "length (stringToBinary (take 123 ?s)) = 8 * 123"
    using stringToBinary_length [OF ascii_latin1 [OF wide_text_ascii(1)]]
    by (simp add: wide_text_length)
  moreover have "length (stringToBinary (drop 124 ?s)) = 8 * 19"
    using stringToBinary_length [OF ascii_latin1 [OF wide_text_ascii(2)]]
    by (simp add: wide_text_length)
  moreover have "length (stringToBinary [321]) = 9"
    by (simp add: stringToBinary_def padStart_def toBinary_eval)
  ultimately show ?thesis
    by (simp add: fullBinaryData_def numberToBinary_length wide_text_length endMarker_def)
qed

lemma example_premises:
  assumes ascii: "list_all (\<lambda>c. c < 128) (JSON_stringify (buildPayload exampleEntropy opts data))"
    and len: "length (JSON_stringify (buildPayload exampleEntropy opts data)) < 16384"
    and wh: "w < 256" "h < 256"
    and cap: "32 + 8 * length (JSON_stringify (buildPayload exampleEntropy opts data)) + 16
      \<le> 3 * (w * h)"
  shows "[uploadPath \<mapsto> blackImage w h] uploadPath = Some (blackImage w h)"
    and "loadImageData (exampleParser opts data) (blackImage w h) =
      Some \<lparr>width = w, height = h, rgba = blackPixels (w * h)\<rparr>"
    and "loadImageData (exampleParser opts data)
        (toPngBuffer (exampleParser opts data)
          (\<lparr>width = w, height = h, rgba = blackPixels (w * h)\<rparr>
            \<lparr>rgba := embedLoop (rgba \<lparr>width = w, height = h, rgba = blackPixels (w * h)\<rparr>)
               (fullBinaryData (JSON_stringify (buildPayload exampleEntropy opts data))) 0 0\<rparr>)) =
      Some (\<lparr>width = w, height = h, rgba = blackPixels (w * h)\<rparr>
            \<lparr>rgba := embedLoop (rgba \<lparr>width = w, height = h, rgba = blackPixels (w * h)\<rparr>)
               (fullBinaryData (JSON_stringify (buildPayload exampleEntropy opts data))) 0 0\<rparr>)"
    and "length (fullBinaryData (JSON_stringify (buildPayload exampleEntropy opts data))) =
      32 + 8 * length (JSON_stringify (buildPayload exampleEntropy opts data)) + 16"
    and "findMarker 0 0 (fullBinaryData (JSON_stringify (buildPayload exampleEntropy opts data))) =
      Some (32 + 8 * length (JSON_stringify (buildPayload exampleEntropy opts data)))"
    and "32 + 8 * length (JSON_stringify (buildPayload exampleEntropy opts data)) + 16
      \<le> 3 * (length (rgba \<lparr>width = w, height = h, rgba = blackPixels (w * h)\<rparr>) div 4)"
    and "JSON_parse (exampleParser opts data) (JSON_stringify (buildPayload exampleEntropy opts data)) =
      Some (envelopeJs (buildPayload exampleEntropy opts data))"
proof -
  let ?s = "JSON_stringify (buildPayload exampleEntropy opts data)"
  let ?rt = "exampleParser opts data"
  let ?img = "\<lparr>width = w, height = h, rgba = blackPixels (w * h)\<rparr>"
  have latin1: "list_all (\<lambda>c. c < 256) ?s"
    using ascii by (rule ascii_latin1)
  have len32: "length ?s < 2 ^ 32"
    using len by simp
  show exact: "length (fullBinaryData ?s) = 32 + 8 * length ?s + 16"
    using latin1 len32 by (rule fullBinaryData_length)
  show "[uploadPath \<mapsto> blackImage w h] uploadPath = Some (blackImage w h)"
    by simp
  show "loadImageData ?rt (blackImage w h) = Some ?img"
    using wh by (simp add: blackImage_decodes exampleParser_def)
  have "length (fullBinaryData ?s) \<le> 3 * (length (blackPixels (w * h)) div 4)"
    using cap exact by simp
  then have "length (embedLoop (blackPixels (w * h)) (fullBinaryData ?s) 0 0) = 4 * (w * h)"
    using embedLoop_stream(2) [of "fullBinaryData ?s" "blackPixels (w * h)"] by simp
  then show "loadImageData ?rt (toPngBuffer ?rt
      (?img\<lparr>rgba := embedLoop (rgba ?img) (fullBinaryData ?s) 0 0\<rparr>)) =
      Some (?img\<lparr>rgba := embedLoop (rgba ?img) (fullBinaryData ?s) 0 0\<rparr>)"
    using wh by (simp add: rawDecode_rawEncode mult.assoc exampleParser_def)
  show "findMarker 0 0 (fullBinaryData ?s) = Some (32 + 8 * length ?s)"
    using ascii_frame_marker [OF ascii len, of "[]"] by (simp add: fullBinaryData_frame)
  show "32 + 8 * length ?s + 16 \<le> 3 * (length (rgba ?img) div 4)"
    using cap by simp
  show "JSON_parse ?rt ?s = Some (envelopeJs (buildPayload exampleEntropy opts data))"
    by (simp add: exampleParser_def)
qed

lemma marker_payload_lost:
  "\<exists>fs'. embedData (exampleParser plainOptions markerPayload) exampleEntropy 7
        [uploadPath \<mapsto> blackImage 21 20] uploadPath markerPayload plainOptions =
      Inr (TempEmbedded 7, fs')
    \<and> extractData (exampleParser plainOptions markerPayload) fs' (TempEmbedded 7) = Null"
proof -
  let ?s = "JSON_stringify (buildPayload exampleEntropy plainOptions markerPayload)"
  let ?a = "take 123 ?s"
  let ?b = "drop 125 ?s"
  let ?rt = "exampleParser plainOptions markerPayload"
  let ?px = "embedLoop (blackPixels 420) (fullBinaryData ?s) 0 0"
  let ?img = "\<lparr>width = 21, height = 20, rgba = ?px\<rparr>"
  let ?fs = "[uploadPath \<mapsto> blackImage 21 20](TempEmbedded 7 \<mapsto> rawEncode ?img)"
  have len: "length ?s < 2 ^ 32"
    and cap: "32 + 8 * length ?s + 16 \<le> 3 * (length (blackPixels 420) div 4)"
    by (simp_all add: marker_text_length)
  note core = embedBits_within_capacity [OF marker_text_latin1 len cap]
  have alen: "length ?a \<le> 144" and n: "(144 :: nat) < 16384"
    by simp_all
  have "decodeStream (frame 144 (?a @ 255 # 254 # ?b) @
      drop (32 + 8 * length ?s + 16) (lsbStream (blackPixels 420))) = Some ?a"
    using marker_text_ascii n alen by (rule early_marker)
  then have bits: "extractBits ?px = Some ?a"
    using core(3) marker_text_split by (simp add: marker_text_length)
  have embedded: "embedData ?rt exampleEntropy 7 [uploadPath \<mapsto> blackImage 21 20] uploadPath
      markerPayload plainOptions = Inr (TempEmbedded 7, ?fs)"
    by (simp add: embedData_def embedTry_def exampleParser_def blackImage_decodes core(1))
  have "rawDecode (rawEncode ?img) = Some ?img"
    by (rule rawDecode_rawEncode) (simp_all add: core(2))
  then have "extractData ?rt ?fs (TempEmbedded 7) = Null"
    by (simp add: extractData_def extractTry_def exampleParser_def bits marker_text_length)
  with embedded show ?thesis
    by blast
qed

lemma wide_payload_lost:
  "\<exists>fs'. embedData (exampleParser plainOptions widePayload) exampleEntropy 7
        [uploadPath \<mapsto> blackImage 21 20] uploadPath widePayload plainOptions =
      Inr (TempEmbedded 7, fs')
    \<and> extractData (exampleParser plainOptions widePayload) fs' (TempEmbedded 7) = Null"
proof -
  let ?s = "JSON_stringify (buildPayload exampleEntropy plainOptions widePayload)"
  let ?rt = "exampleParser plainOptions widePayload"
  let ?px = "embedLoop (blackPixels 420) (fullBinaryData ?s) 0 0"
  let ?img = "\<lparr>width = 21, height = 20, rgba = ?px\<rparr>"
  let ?fs = "[uploadPath \<mapsto> blackImage 21 20](TempEmbedded 7 \<mapsto> rawEncode ?img)"
  have fits: "length (fullBinaryData ?s) \<le> 3 * (length (blackPixels 420) div 4)"
    by (simp add: wide_frame_length)
  have bits: "embedBits (blackPixels 420) ?s = Inr ?px"
    by (simp add: embedBits_def wide_frame_length)
  have plen: "length ?px = 4 * 420"
    using embedLoop_stream(2) [OF fits] by simp
  have embedded: "embedData ?rt exampleEntropy 7 [uploadPath \<mapsto> blackImage 21 20] uploadPath
      widePayload plainOptions = Inr (TempEmbedded 7, ?fs)"
    by (simp add: embedData_def embedTry_def exampleParser_def blackImage_decodes bits)
  have written: "?fs (TempEmbedded 7) = Some (rawEncode ?img)"
    by simp
  have decoded: "loadImageData ?rt (rawEncode ?img) = Some ?img"
    unfolding exampleParser_def exampleRuntime_simps
    by (rule rawDecode_rawEncode) (simp_all add: plen)
  have table: "JSON_parse ?rt =
      map_of [(?s, envelopeJs (buildPayload exampleEntropy plainOptions widePayload))]"
    by (simp add: exampleParser_def)
  have "extractData ?rt ?fs (TempEmbedded 7) = Null"
    using wide_text_wide written decoded table by (rule wide_text_unparsed)
  with embedded show ?thesis
    by blast
qed

lemma lsbStream_blackPixels: "lsbStream (blackPixels n) = replicate (3 * n) False"
proof (induction n)
  case 0
  show ?case by (simp add: blackPixels_def)
next
  case (Suc n)
  have "replicate (3 * Suc n) False = False # False # False # replicate (3 * n) False"
    by (simp add: numeral_3_eq_3)
  with Suc show ?case
    by (simp add: blackPixels_def lsb_def)
qed

lemma craftedPixels_stream:
  assumes "length bs \<le> 3 * n"
  shows "lsbStream (craftedPixels n bs) = bs @ replicate (3 * n - length bs) False"
    and "length (craftedPixels n bs) = 4 * n"
  using embedLoop_stream [of bs "blackPixels n"] assms
  by (simp_all add: craftedPixels_def lsbStream_blackPixels)

lemma craftedImage_decodes:
  "w < 256 \<Longrightarrow> h < 256 \<Longrightarrow> length bs \<le> 3 * (w * h) \<Longrightarrow>
   rawDecode (craftedImage w h bs) =
     Some \<lparr>width = w, height = h, rgba = craftedPixels (w * h) bs\<rparr>"
  unfolding craftedImage_def
  by (rule rawDecode_rawEncode) (simp_all add: craftedPixels_stream(2))

lemma braces_ascii: "list_all (\<lambda>c. c < 128) (js ''{}'')"
  by (simp add: js_def)

lemma braces_frame_length: "length (frame 100 (js ''{}'')) = 64"
  using frame_length [OF ascii_latin1 [OF braces_ascii], of 100] by (simp add: js_def)

lemma braces_decoded: "decodeStream (frame 100 (js ''{}'') @ rest) = Some (js ''{}'')"
proof (rule decodeStream_frame)
  show "list_all (\<lambda>c. c < 256) (js ''{}'')"
    using braces_ascii by (rule ascii_latin1)
  show "findMarker 0 0 (frame 100 (js ''{}'')) = Some (32 + 8 * length (js ''{}''))"
    using ascii_frame_marker [OF braces_ascii, of 100 "[]"] by simp
qed (simp_all add: js_def)

lemma braces_stream:
  "lsbStream (craftedPixels 22 (frame 100 (js ''{}''))) = frame 100 (js ''{}'') @ [False, False]"
proof -
  have "length (frame 100 (js ''{}'')) \<le> 3 * 22"
    by (simp add: braces_frame_length)
  from craftedPixels_stream(1) [OF this] show ?thesis
    by (simp add: braces_frame_length numeral_2_eq_2)
qed

lemma braces_marker:
  "findMarker 0 0 (lsbStream (craftedPixels 22 (frame 100 (js ''{}'')))) = Some 48"
proof -
  have "length (js ''{}'') = 2"
    by (simp add: js_def)
  with ascii_frame_marker [OF braces_ascii, of 100 "[False, False]"]
  have "findMarker 0 0 (frame 100 (js ''{}'') @ [False, False]) = Some 48"
    by simp
  then show ?thesis
    unfolding braces_stream .
qed

lemma braces_prefix:
  "binaryToNumber (take 32 (lsbStream (craftedPixels 22 (frame 100 (js ''{}''))))) = 100"
proof -
  have "length (numberToBinary 100 32) = 32"
    by (rule numberToBinary_length) simp
  then have "take 32 (frame 100 (js ''{}'') @ [False, False]) = numberToBinary 100 32"
    by (simp add: frame_def)
  then show ?thesis
    unfolding braces_stream by (simp add: numberToBinary_def binaryToNumber_padStart)
qed

lemma findMarker_zeros_None: "run < 15 \<Longrightarrow> findMarker run n (replicate k False) = None"
  by (induction k arbitrary: run n) auto

lemma exampleDigest_length: "length (exampleDigest content) = 64"
  by (simp add: exampleDigest_def toHex_length)

lemma issued_file_extracts:
  "extractData (exampleParser plainOptions examplePayload)
     [uploadPath \<mapsto> craftedImage 21 20
        (fullBinaryData (JSON_stringify (buildPayload exampleEntropy plainOptions examplePayload)))]
     uploadPath = payloadJs examplePayload"
proof -
  let ?s = "JSON_stringify (buildPayload exampleEntropy plainOptions examplePayload)"
  let ?bs = "fullBinaryData ?s"
  have blen: "length ?bs = 32 + 8 * 148 + 16"
    using fullBinaryData_length [OF ascii_latin1 [OF plain_text_ascii]]
    by (simp add: plain_text_length)
  then have fits: "length ?bs \<le> 3 * (21 * 20)"
    by simp
  have "decodeStream (frame (length ?s) ?s @ replicate (3 * (21 * 20) - length ?bs) False) = Some ?s"
  proof (rule decodeStream_frame)
    show "list_all (\<lambda>c. c < 256) ?s"
      using plain_text_ascii by (rule ascii_latin1)
    show "findMarker 0 0 (frame (length ?s) ?s) = Some (32 + 8 * length ?s)"
      using ascii_frame_marker [OF plain_text_ascii, of "length ?s" "[]"]
      by (simp add: plain_text_length)
  qed (simp_all add: plain_text_length)
  then have "decodeStream (lsbStream (craftedPixels (21 * 20) ?bs)) = Some ?s"
    using craftedPixels_stream(1) [OF fits] by (simp add: fullBinaryData_frame)
  then show ?thesis
    using extractData_decodeStream
      [where fs = "[uploadPath \<mapsto> craftedImage 21 20 ?bs]" and imagePath = uploadPath
         and rt = "exampleParser plainOptions examplePayload"
         and img = "\<lparr>width = 21, height = 20, rgba = craftedPixels (21 * 20) ?bs\<rparr>"]
      craftedImage_decodes [of 21 20 ?bs] fits
    by (simp add: exampleParser_def selectResult_buildPayload)
qed

section \<open>The claims\<close>

subsection \<open>The hash of the anchor check\<close>

text \<open>
  Claim C1. The anchor check of \<open>POST /certificate\<close>. For an upload that can be read
  and that carries embedded data, the response is that of steps 3 to 5, and the hash that
  step 3 hands to \<open>verifyHash\<close> is \<open>certificateHash\<close>, the SHA-256 of the uploaded
  file: the signature of the embedded data has no part in it, although
  \<open>routes/issue.js\<close> stores \<open>generateCombinedHash(certificateHash, signature)\<close>.
  \<open>verifyHash\<close> reports this file hash back as its \<open>certificateHash\<close>; with no
  contract its answer is the simulated \<open>valid: true\<close>, and with a contract it is the
  contract's answer for the file hash.
\<close>

theorem anchor_check_uses_file_hash:
  assumes "fs filePath = Some content"
    and "truthy (extractData rt fs filePath)"
  shows "verifyCertificate rt ch cr fs (Some filePath) =
      Json (verifyEmbedded ch cr (sha256hex rt content) (extractData rt fs filePath))
    \<and> blockchainDetails (verifyEmbedded ch cr (sha256hex rt content) (extractData rt fs filePath)) =
      Some (verifyHash ch (getProp (extractData rt fs filePath) (js ''transactionHash''))
              (sha256hex rt content))
    \<and> blockchainVerified
        (verificationDetails
          (verifyEmbedded ch cr (sha256hex rt content) (extractData rt fs filePath))) =
      cvValid (verifyHash ch (getProp (extractData rt fs filePath) (js ''transactionHash''))
                 (sha256hex rt content))
    \<and> cvCertificateHash (verifyHash ch txHash (sha256hex rt content)) = sha256hex rt content
    \<and> (contract ch = None \<longrightarrow> cvValid (verifyHash ch txHash (sha256hex rt content)))
    \<and> (contract ch = Some c \<and> contractVerifyHash c (sha256hex rt content) = Some found
        \<and> contractGetIssuer c (sha256hex rt content) = Some issuer \<longrightarrow>
        cvValid (verifyHash ch txHash (sha256hex rt content)) = found)"
  using assms
  by (auto simp add: verifyCertificate_def generateHash_def verifyEmbedded_def Let_def verifyHash_def
      simulateBlockchainVerification_def split: option.split)

theorem anchor_check_uses_file_hash_witness:
  "truthy (extractData (exampleParser plainOptions examplePayload)
     [uploadPath \<mapsto> craftedImage 21 20
        (fullBinaryData (JSON_stringify (buildPayload exampleEntropy plainOptions examplePayload)))]
     uploadPath)
   \<and> verifyCertificate (exampleParser plainOptions examplePayload)
        (registryChain (combinedHash examplePayload)) noKeys
        [uploadPath \<mapsto> craftedImage 21 20
           (fullBinaryData (JSON_stringify (buildPayload exampleEntropy plainOptions examplePayload)))]
        (Some uploadPath) =
      Json (verifyEmbedded (registryChain (combinedHash examplePayload)) noKeys
        (exampleDigest (craftedImage 21 20
           (fullBinaryData (JSON_stringify (buildPayload exampleEntropy plainOptions examplePayload)))))
        (payloadJs examplePayload))
   \<and> cvCertificateHash (verifyHash (registryChain (combinedHash examplePayload))
        (Str (transactionHash examplePayload))
        (exampleDigest (craftedImage 21 20
           (fullBinaryData (JSON_stringify (buildPayload exampleEntropy plainOptions examplePayload)))))) =
      exampleDigest (craftedImage 21 20
           (fullBinaryData (JSON_stringify (buildPayload exampleEntropy plainOptions examplePayload))))
   \<and> cvValid (verifyHash (registryChain (combinedHash examplePayload))
        (Str (transactionHash examplePayload))
        (exampleDigest (craftedImage 21 20
           (fullBinaryData (JSON_stringify (buildPayload exampleEntropy plainOptions examplePayload)))))) =
      False"
proof -
  let ?file = "craftedImage 21 20
    (fullBinaryData (JSON_stringify (buildPayload exampleEntropy plainOptions examplePayload)))"
  let ?rt = "exampleParser plainOptions examplePayload"
  let ?ch = "registryChain (combinedHash examplePayload)"
  have readable: "[uploadPath \<mapsto> ?file] uploadPath = Some ?file"
    by simp
  have data: "truthy (extractData ?rt [uploadPath \<mapsto> ?file] uploadPath)"
    by (simp add: issued_file_extracts payloadJs_def)
  have digest: "sha256hex ?rt ?file = exampleDigest ?file"
    by (simp add: exampleParser_def)
  have "length (exampleDigest ?file) \<noteq> length (combinedHash examplePayload)"
    by (simp add: exampleDigest_length examplePayload_def js_def)
  then have differs: "(exampleDigest ?file = combinedHash examplePayload) = False"
    by auto
  note main = anchor_check_uses_file_hash
    [where fs = "[uploadPath \<mapsto> ?file]" and filePath = uploadPath and content = ?file
       and rt = ?rt and ch = ?ch and cr = noKeys
       and txHash = "Str (transactionHash examplePayload)"
       and c = "\<lparr>contractVerifyHash = (\<lambda>h. Some (h = combinedHash examplePayload)),
                 contractGetIssuer = (\<lambda>h. Some (js ''univ-1''))\<rparr>"
       and found = False and issuer = "js ''univ-1''",
      OF readable data]
  show ?thesis
    using main data by (simp add: issued_file_extracts digest registryChain_def differs)
qed

subsection \<open>The place of the real entry\<close>

text \<open>
  Claim C2. In noise mode the envelope holds the real entry and
  \<open>options.decoyCount || 5\<close> decoys, in the order \<open>[{type: 'real', data}, ...decoys]\<close>:
  for every entropy source the real entry is at index 0 and every later entry is a
  decoy. The entries are not permuted.
\<close>

theorem real_entry_is_first:
  assumes "noiseDefense opts"
  shows "length (entries (buildPayload ent opts data)) = decoyTotal opts + 1
    \<and> realPosition (entries (buildPayload ent opts data)) = Some 0
    \<and> hd (entries (buildPayload ent opts data)) = RealEntry data
    \<and> list_all isDecoy (tl (entries (buildPayload ent opts data)))"
  using assms by (simp add: buildPayload_def list_all_iff)

theorem real_entry_is_first_witness:
  "noiseDefense noiseOptions
   \<and> length (entries (buildPayload exampleEntropy noiseOptions examplePayload)) = 2
   \<and> realPosition (entries (buildPayload exampleEntropy noiseOptions examplePayload)) = Some 0
   \<and> hd (entries (buildPayload exampleEntropy noiseOptions examplePayload)) = RealEntry examplePayload
   \<and> list_all isDecoy (tl (entries (buildPayload exampleEntropy noiseOptions examplePayload)))"
proof -
  have noise: "noiseDefense noiseOptions"
    by (simp add: noiseOptions_def)
  have "decoyTotal noiseOptions + 1 = 2"
    by (simp add: noiseOptions_def decoyTotal_def)
  with real_entry_is_first [OF noise, of exampleEntropy examplePayload] noise
  show ?thesis
    by simp
qed

text \<open>
  Two entropy sources that give different decoys leave the real entry at the same
  place, the first.
\<close>

theorem fixed_position_counterexample:
  "makeDecoy exampleEntropy 0 \<noteq> makeDecoy otherEntropy 0
   \<and> realPosition (entries (buildPayload exampleEntropy noiseOptions examplePayload)) = Some 0
   \<and> realPosition (entries (buildPayload otherEntropy noiseOptions examplePayload)) = Some 0
   \<and> hd (entries (buildPayload exampleEntropy noiseOptions examplePayload)) =
       hd (entries (buildPayload otherEntropy noiseOptions examplePayload))"
proof -
  have "fakeIssuer (makeDecoy exampleEntropy 0) \<noteq> fakeIssuer (makeDecoy otherEntropy 0)"
    by (simp add: makeDecoy_def exampleEntropy_def otherEntropy_def slice_def js_def)
  then have "makeDecoy exampleEntropy 0 \<noteq> makeDecoy otherEntropy 0"
    by metis
  then show ?thesis
    by (simp add: buildPayload_def noiseOptions_def)
qed

subsection \<open>Which entry of a noise envelope is returned\<close>

text \<open>
  Claim C3. For an extracted envelope of mode \<open>noise\<close> whose \<open>entries\<close> is an
  array: with no entry that is tagged \<open>real\<close> and has data, extraction returns
  \<open>null\<close>; with one or more, it returns the data of the first of them
  (\<open>Array.prototype.find\<close>). With exactly one, that is the data of the authentic record.
\<close>

theorem noise_selection_takes_first_real:
  assumes "truthy extracted"
    and "getProp extracted (js ''mode'') = Str (js ''noise'')"
    and "getProp extracted (js ''entries'') = Arr es"
  shows "(filter isRealEntry es = [] \<longrightarrow> selectResult extracted = Null)
    \<and> (filter isRealEntry es \<noteq> [] \<longrightarrow>
         selectResult extracted = getProp (hd (filter isRealEntry es)) (js ''data''))"
  using assms by (simp add: selectResult_def find_filter_hd split: list.split)

theorem noise_selection_takes_first_real_witness:
  "(filter isRealEntry (elements (getProp decoyThenReal (js ''entries''))) =
      [Obj [(js ''type'', Str (js ''real'')), (js ''data'', Str (js ''authentic''))]]
    \<and> selectResult decoyThenReal = Str (js ''authentic''))
   \<and> (filter isRealEntry (elements (getProp onlyDecoys (js ''entries''))) = []
    \<and> selectResult onlyDecoys = Null)"
proof -
  let ?es1 = "[Obj [(js ''type'', Str (js ''decoy'')), (js ''fakeHash'', Str (js ''00''))],
          Obj [(js ''type'', Str (js ''real'')), (js ''data'', Str (js ''authentic''))]]"
  let ?es0 = "[Obj [(js ''type'', Str (js ''decoy'')), (js ''fakeHash'', Str (js ''00''))]]"
  have one: "filter isRealEntry ?es1 =
      [Obj [(js ''type'', Str (js ''real'')), (js ''data'', Str (js ''authentic''))]]"
    and none: "filter isRealEntry ?es0 = []"
    by (simp_all add: isRealEntry_def)
  have "selectResult decoyThenReal = Str (js ''authentic'')"
    using noise_selection_takes_first_real [of decoyThenReal ?es1] one
    by (simp add: decoyThenReal_def)
  moreover have "selectResult onlyDecoys = Null"
    using noise_selection_takes_first_real [of onlyDecoys ?es0] none
    by (simp add: onlyDecoys_def)
  ultimately show ?thesis
    using one none by (simp add: decoyThenReal_def onlyDecoys_def)
qed

text \<open>
  An envelope with two entries tagged \<open>real\<close> is not rejected: the data of the first
  one is returned.
\<close>

theorem ambiguous_envelope_counterexample:
  "length (filter isRealEntry (elements (getProp twoRealEntries (js ''entries'')))) = 2
   \<and> selectResult twoRealEntries = Str (js ''first'')"
  by code_simp

subsection \<open>The capacity test\<close>

text \<open>
  Claim C4. The capacity test of \<open>embedData\<close> compares the frame of
  \<open>R = 32 + 8L + 16\<close> bits with \<open>pixels.length * 3\<close>, twelve bits for a pixel of
  four bytes, and the loop writes three bits for a pixel. So for an image of complete
  pixels and an ASCII envelope text of fewer than 16384 characters, whose frame is longer
  than \<open>3 * pixelCount\<close> bits and not longer than \<open>pixels.length * 3\<close>, no error is
  thrown: the pixels are rewritten, the bits of the carrier are the first
  \<open>3 * pixelCount\<close> bits of the frame, the file is written, and nothing can be
  extracted from the result.
\<close>

theorem oversized_frame_is_embedded:
  assumes "fs imagePath = Some imageBuffer"
    and "loadImageData rt imageBuffer = Some img"
    and "length (rgba img) mod 4 = 0"
    and "list_all (\<lambda>c. c < 128) (JSON_stringify (buildPayload ent opts data))"
    and "length (JSON_stringify (buildPayload ent opts data)) < 16384"
    and "3 * (length (rgba img) div 4)
      < 32 + 8 * length (JSON_stringify (buildPayload ent opts data)) + 16"
    and "32 + 8 * length (JSON_stringify (buildPayload ent opts data)) + 16
      \<le> length (rgba img) * 3"
  shows "\<exists>pixels'.
      embedBits (rgba img) (JSON_stringify (buildPayload ent opts data)) = Inr pixels'
    \<and> embedData rt ent now fs imagePath data opts =
        Inr (TempEmbedded now, fs(TempEmbedded now \<mapsto> toPngBuffer rt (img\<lparr>rgba := pixels'\<rparr>)))
    \<and> lsbStream pixels' =
        take (3 * (length (rgba img) div 4))
          (fullBinaryData (JSON_stringify (buildPayload ent opts data)))
    \<and> extractBits pixels' = None"
proof -
  let ?s = "JSON_stringify (buildPayload ent opts data)"
  let ?full = "fullBinaryData ?s"
  let ?px = "embedLoop (rgba img) ?full 0 0"
  have latin1: "list_all (\<lambda>c. c < 256) ?s"
    using assms(4) by (rule ascii_latin1)
  have len: "length ?s < 2 ^ 32"
    using assms(5) by simp
  have flen: "length ?full = 32 + 8 * length ?s + 16"
    using latin1 len by (rule fullBinaryData_length)
  have marker: "findMarker 0 0 ?full = Some (length ?full - 16)"
    using ascii_frame_marker [OF assms(4,5), of "[]"] by (simp add: fullBinaryData_frame flen [unfolded fullBinaryData_frame])
  have over: "3 * (length (rgba img) div 4) < length ?full"
    using assms(6) flen by simp
  have "\<not> length ?full > length (rgba img) * 3"
    using assms(7) flen by simp
  then have bits: "embedBits (rgba img) ?s = Inr ?px"
    by (simp add: embedBits_def)
  then have "embedData rt ent now fs imagePath data opts =
      Inr (TempEmbedded now, fs(TempEmbedded now \<mapsto> toPngBuffer rt (img\<lparr>rgba := ?px\<rparr>)))"
    by (simp add: embedData_def embedTry_def assms(1,2))
  moreover have "length (lsbStream (rgba img)) = 3 * (length (rgba img) div 4)"
    using assms(3) by (rule lsbStream_length)
  then have "lsbStream ?px = take (3 * (length (rgba img) div 4)) ?full"
    using embedLoop_stream_any(1) [OF assms(3), of ?full] over by simp
  moreover have "extractBits ?px = None"
    using assms(3) over marker by (rule extractBits_overflow) (simp add: flen)
  ultimately show ?thesis
    using bits by blast
qed

theorem oversized_frame_is_embedded_witness:
  "length (rgba \<lparr>width = 11, height = 10, rgba = blackPixels 110\<rparr>) mod 4 = 0
   \<and> list_all (\<lambda>c. c < 128) (JSON_stringify (buildPayload exampleEntropy plainOptions examplePayload))
   \<and> 3 * (length (blackPixels 110) div 4)
       < 32 + 8 * length (JSON_stringify (buildPayload exampleEntropy plainOptions examplePayload)) + 16
   \<and> 32 + 8 * length (JSON_stringify (buildPayload exampleEntropy plainOptions examplePayload)) + 16
       \<le> length (blackPixels 110) * 3
   \<and> (\<exists>pixels'.
        embedBits (blackPixels 110)
          (JSON_stringify (buildPayload exampleEntropy plainOptions examplePayload)) = Inr pixels'
      \<and> embedData (exampleRuntime []) exampleEntropy 7 [uploadPath \<mapsto> blackImage 11 10] uploadPath
          examplePayload plainOptions =
        Inr (TempEmbedded 7,
             [uploadPath \<mapsto> blackImage 11 10,
              TempEmbedded 7 \<mapsto> rawEncode \<lparr>width = 11, height = 10, rgba = pixels'\<rparr>])
      \<and> lsbStream pixels' =
          take 330 (fullBinaryData
            (JSON_stringify (buildPayload exampleEntropy plainOptions examplePayload)))
      \<and> extractBits pixels' = None)"
proof -
  let ?img = "\<lparr>width = 11, height = 10, rgba = blackPixels 110\<rparr>"
  let ?s = "JSON_stringify (buildPayload exampleEntropy plainOptions examplePayload)"
  have readable: "[uploadPath \<mapsto> blackImage 11 10] uploadPath = Some (blackImage 11 10)"
    by simp
  have decode: "loadImageData (exampleRuntime []) (blackImage 11 10) = Some ?img"
    by (simp add: blackImage_decodes)
  have complete: "length (rgba ?img) mod 4 = 0"
    by simp
  have len: "length ?s < 16384"
    and over: "3 * (length (rgba ?img) div 4) < 32 + 8 * length ?s + 16"
    and under: "32 + 8 * length ?s + 16 \<le> length (rgba ?img) * 3"
    by (simp_all add: plain_text_length)
  from oversized_frame_is_embedded
    [where fs = "[uploadPath \<mapsto> blackImage 11 10]" and imagePath = uploadPath and now = 7,
      OF readable decode complete plain_text_ascii len over under]
  show ?thesis
    using complete plain_text_ascii over under by simp
qed

subsection \<open>Read faults and decode faults of the verification\<close>

text \<open>
  Claim C5. A file that cannot be read faults the verification: \<open>generateHash\<close>
  rejects, and the response is status 500. A file that can be read and that
  \<open>loadImage\<close> cannot decode does not: \<open>extractData\<close> catches the exception and
  returns \<open>null\<close>, and the response is the one for a certificate without embedded
  data.
\<close>

theorem read_fault_and_decode_fault:
  "(fs filePath = None \<longrightarrow>
      verifyCertificate rt ch cr fs (Some filePath) = Status 500 ''Failed to verify certificate'')
   \<and> (fs filePath = Some content \<and> loadImageData rt content = None \<longrightarrow>
      extractData rt fs filePath = Null
      \<and> verifyCertificate rt ch cr fs (Some filePath) = Json (noEmbeddedData (sha256hex rt content)))"
  by (simp add: verifyCertificate_def generateHash_def extractData_def extractTry_def)

theorem read_fault_and_decode_fault_witness:
  "(Map.empty uploadPath = None
    \<and> verifyCertificate (exampleRuntime []) noChain noKeys Map.empty (Some uploadPath) =
        Status 500 ''Failed to verify certificate'')
   \<and> ([uploadPath \<mapsto> [1, 2, 3]] uploadPath = Some [1, 2, 3]
    \<and> loadImageData (exampleRuntime []) [1, 2, 3] = None
    \<and> extractData (exampleRuntime []) [uploadPath \<mapsto> [1, 2, 3]] uploadPath = Null
    \<and> verifyCertificate (exampleRuntime []) noChain noKeys [uploadPath \<mapsto> [1, 2, 3]]
          (Some uploadPath) = Json (noEmbeddedData (sha256hex (exampleRuntime []) [1, 2, 3])))"
proof -
  have corrupt: "loadImageData (exampleRuntime []) [1, 2, 3] = None"
    by (simp add: rawDecode_def)
  note t = read_fault_and_decode_fault
  have "verifyCertificate (exampleRuntime []) noChain noKeys Map.empty (Some uploadPath) =
      Status 500 ''Failed to verify certificate''"
    using t [where fs = Map.empty and filePath = uploadPath] by simp
  moreover have "extractData (exampleRuntime []) [uploadPath \<mapsto> [1, 2, 3]] uploadPath = Null
      \<and> verifyCertificate (exampleRuntime []) noChain noKeys [uploadPath \<mapsto> [1, 2, 3]]
          (Some uploadPath) = Json (noEmbeddedData (sha256hex (exampleRuntime []) [1, 2, 3]))"
    using t [where fs = "[uploadPath \<mapsto> [1, 2, 3]]" and filePath = uploadPath
        and content = "[1, 2, 3]" and rt = "exampleRuntime []" and ch = noChain and cr = noKeys]
      corrupt
    by simp
  ultimately show ?thesis
    using corrupt by simp
qed

text \<open>
  Three bytes that are no image: the response is the no-embedded-data one, not a
  status 500.
\<close>

theorem decode_fault_counterexample:
  "[uploadPath \<mapsto> [1, 2, 3]] uploadPath = Some [1, 2, 3]
   \<and> loadImageData (exampleRuntime []) [1, 2, 3] = None
   \<and> verifyCertificate (exampleRuntime []) noChain noKeys [uploadPath \<mapsto> [1, 2, 3]]
        (Some uploadPath) = Json (noEmbeddedData (exampleDigest [1, 2, 3]))"
  by (simp add: verifyCertificate_def generateHash_def extractData_def extractTry_def
      exampleRuntime_def rawDecode_def)

subsection \<open>Round trip\<close>




subsection \<open>No embedded data\<close>

text \<open>
  Claim C7. When the uploaded file can be read and extraction returns nothing (a falsy
  value, \<open>null\<close> in particular), the response of \<open>POST /certificate\<close> is the
  no-embedded-data one: \<open>success\<close> and \<open>valid\<close> are false, the message and
  \<open>hasEmbeddedData = false\<close> name the extraction as what failed, \<open>blockchainVerified\<close>
  and \<open>signatureVerified\<close> are false, and there are no blockchain details. The response
  is the same for every chain and every key store: neither is consulted.
\<close>

theorem missing_payload_is_invalid:
  assumes "fs filePath = Some content"
    and "\<not> truthy (extractData rt fs filePath)"
  shows "verifyCertificate rt ch cr fs (Some filePath) =
     Json \<lparr>success = False, valid = False,
           message = ''No embedded verification data found in certificate'',
           verificationDetails =
             \<lparr>vdCertificateHash = sha256hex rt content, hasEmbeddedData = False,
              blockchainVerified = False, signatureVerified = False\<rparr>,
           blockchainDetails = None\<rparr>"
  using assms by (simp add: verifyCertificate_def generateHash_def noEmbeddedData_def)

theorem missing_payload_is_invalid_witness:
  "[uploadPath \<mapsto> blackImage 2 2] uploadPath = Some (blackImage 2 2)
   \<and> \<not> truthy (extractData (exampleRuntime []) [uploadPath \<mapsto> blackImage 2 2] uploadPath)
   \<and> verifyCertificate (exampleRuntime []) noChain noKeys [uploadPath \<mapsto> blackImage 2 2]
         (Some uploadPath) =
       Json \<lparr>success = False, valid = False,
             message = ''No embedded verification data found in certificate'',
             verificationDetails =
               \<lparr>vdCertificateHash = sha256hex (exampleRuntime []) (blackImage 2 2),
                hasEmbeddedData = False, blockchainVerified = False,
                signatureVerified = False\<rparr>,
             blockchainDetails = None\<rparr>"
proof -
  have readable: "[uploadPath \<mapsto> blackImage 2 2] uploadPath = Some (blackImage 2 2)"
    by simp
  have falsy: "\<not> truthy (extractData (exampleRuntime []) [uploadPath \<mapsto> blackImage 2 2] uploadPath)"
    by code_simp
  show ?thesis
    using missing_payload_is_invalid
      [where fs = "[uploadPath \<mapsto> blackImage 2 2]" and filePath = uploadPath
         and content = "blackImage 2 2" and rt = "exampleRuntime []" and ch = noChain
         and cr = noKeys, OF readable falsy]
      readable falsy
    by blast
qed

subsection \<open>The shape of a decoy\<close>

text \<open>
  Claim C8. A decoy entry has the keys \<open>type\<close>, \<open>fakeHash\<close>, \<open>fakeSignature\<close>
  and \<open>fakeIssuer\<close>; its hash and its signature are 64 lower-case hexadecimal digits
  each (32 random bytes), and its issuer is \<open>decoy-\<close> followed by at most six
  characters. None of this depends on the real entry.
\<close>

theorem decoy_shape:
  "keysOf (entryJs (DecoyEntry (makeDecoy ent i))) =
     [js ''type'', js ''fakeHash'', js ''fakeSignature'', js ''fakeIssuer'']
   \<and> length (fakeHash (makeDecoy ent i)) = 64
   \<and> list_all isHexChar (fakeHash (makeDecoy ent i))
   \<and> length (fakeSignature (makeDecoy ent i)) = 64
   \<and> list_all isHexChar (fakeSignature (makeDecoy ent i))
   \<and> take 6 (fakeIssuer (makeDecoy ent i)) = js ''decoy-''
   \<and> length (fakeIssuer (makeDecoy ent i)) \<le> 12"
  by (simp add: makeDecoy_def toHex_length toHex_hex randomBytes32_length slice_def js_def)

text \<open>
  The real entry has the keys \<open>type\<close> and \<open>data\<close>; a real signature of 344 base64
  characters (RSA-2048) faces a decoy signature of 64.
\<close>

theorem decoy_shape_counterexample:
  "length (signature rsaPayload) = 344
   \<and> length (fakeSignature (makeDecoy exampleEntropy 0)) = 64
   \<and> keysOf (entryJs (RealEntry rsaPayload)) = [js ''type'', js ''data'']
   \<and> keysOf (entryJs (DecoyEntry (makeDecoy exampleEntropy 0))) =
       [js ''type'', js ''fakeHash'', js ''fakeSignature'', js ''fakeIssuer'']
   \<and> keysOf (entryJs (DecoyEntry (makeDecoy exampleEntropy 0))) \<noteq>
       keysOf (entryJs (RealEntry rsaPayload))"
  by (simp add: rsaPayload_def makeDecoy_def toHex_length randomBytes32_length)

subsection \<open>Issuance and the combined hash\<close>

text \<open>
  Claim C9. \<open>routes/issue.js\<close> takes \<open>generateCombinedHash\<close> from
  \<open>utils/hash.js\<close>, which does not export that name. So for a request with a file and
  all four required fields, step 3 throws when it calls the binding, whatever function
  one would have bound to it: the response is status 500, no file is written, and no
  payload with a combined hash is composed.
\<close>

theorem issuance_fails_at_combined_hash:
  assumes "reqFile req = Some filePath"
    and "present (reqIssuerId req)" and "present (reqIssuerName req)"
    and "present (reqRecipientName req)" and "present (reqCertificateType req)"
  shows "\<not> exportedByUtilsHash ''generateCombinedHash''
    \<and> issueFromStep3 combine rt ent now nowIso ch fs req filePath certHash sig issuer signerId =
        (IssueStatus 500 ''Failed to issue certificate'', fs)
    \<and> issueCertificate combine rt ent now nowIso ch cr fs req =
        (IssueStatus 500 ''Failed to issue certificate'', fs)"
  using assms
  by (simp add: issueCertificate_def issueFromStep3_throws Let_def
      exportedByUtilsHash_def utilsHashExports_def split: sum.split)

theorem issuance_fails_at_combined_hash_witness:
  "reqFile completeRequest = Some uploadPath
   \<and> present (reqIssuerId completeRequest) \<and> present (reqIssuerName completeRequest)
   \<and> present (reqRecipientName completeRequest) \<and> present (reqCertificateType completeRequest)
   \<and> generateHash (exampleRuntime []) [uploadPath \<mapsto> blackImage 21 20] uploadPath =
       Inr (exampleDigest (blackImage 21 20))
   \<and> signData signingKeys (exampleDigest (blackImage 21 20)) (js ''univ-1'') = Inr (js ''c2ln'')
   \<and> issueCertificate (\<lambda>h s. exampleDigest (map of_nat (h @ s))) (exampleRuntime [])
         exampleEntropy 7 (js ''T'') noChain signingKeys [uploadPath \<mapsto> blackImage 21 20]
         completeRequest =
       (IssueStatus 500 ''Failed to issue certificate'', [uploadPath \<mapsto> blackImage 21 20])"
proof -
  have upload: "reqFile completeRequest = Some uploadPath"
    and inputs: "present (reqIssuerId completeRequest)" "present (reqIssuerName completeRequest)"
      "present (reqRecipientName completeRequest)" "present (reqCertificateType completeRequest)"
    by (simp_all add: completeRequest_def)
  have hashed: "generateHash (exampleRuntime []) [uploadPath \<mapsto> blackImage 21 20] uploadPath =
      Inr (exampleDigest (blackImage 21 20))"
    by (simp add: generateHash_def)
  have signed: "signData signingKeys (exampleDigest (blackImage 21 20)) (js ''univ-1'') =
      Inr (js ''c2ln'')"
    by (simp add: signData_def signingKeys_def)
  from issuance_fails_at_combined_hash [OF upload inputs,
      where combine = "\<lambda>h s. exampleDigest (map of_nat (h @ s))" and rt = "exampleRuntime []"
        and ent = exampleEntropy and now = 7 and nowIso = "js ''T''" and ch = noChain
        and cr = signingKeys and fs = "[uploadPath \<mapsto> blackImage 21 20]"]
  have "issueCertificate (\<lambda>h s. exampleDigest (map of_nat (h @ s))) (exampleRuntime [])
         exampleEntropy 7 (js ''T'') noChain signingKeys [uploadPath \<mapsto> blackImage 21 20]
         completeRequest =
       (IssueStatus 500 ''Failed to issue certificate'', [uploadPath \<mapsto> blackImage 21 20])"
    by simp
  with upload inputs hashed signed show ?thesis
    by blast
qed

subsection \<open>What extractData returns on faults\<close>

text \<open>
  Claim C10. \<open>extractData\<close> returns a value for every input: an exception inside
  its \<open>try\<close> block is caught and \<open>null\<close> returned. It returns \<open>null\<close> for a
  file that cannot be read, for bytes that are no image, for a carrier without end
  marker, for an end marker after fewer than 32 bits, and for a text that
  \<open>JSON.parse\<close> rejects. A truncated buffer is not rejected: when the length prefix
  says more characters than there are bits before the marker, the bits that are there
  are decoded and handed to \<open>JSON.parse\<close>; and when what lines 147 to 155 select
  from the parsed text is an object or \<open>null\<close>, that is what is returned.
\<close>

theorem extraction_faults_yield_null:
  "(extractTry rt fs imagePath = Inl e \<longrightarrow> extractData rt fs imagePath = Null)
   \<and> (fs imagePath = None \<longrightarrow> extractData rt fs imagePath = Null)
   \<and> (fs imagePath = Some content \<and> loadImageData rt content = None \<longrightarrow>
        extractData rt fs imagePath = Null)
   \<and> (fs imagePath = Some content \<and> loadImageData rt content = Some img
        \<and> findMarker 0 0 (lsbStream (rgba img)) = None \<longrightarrow>
        extractData rt fs imagePath = Null)
   \<and> (fs imagePath = Some content \<and> loadImageData rt content = Some img
        \<and> findMarker 0 0 (lsbStream (rgba img)) = Some k \<and> k < 32 \<longrightarrow>
        extractData rt fs imagePath = Null)
   \<and> (fs imagePath = Some content \<and> loadImageData rt content = Some img
        \<and> extractBits (rgba img) = Some dataString \<and> JSON_parse rt dataString = None \<longrightarrow>
        extractData rt fs imagePath = Null)
   \<and> (findMarker 0 0 (lsbStream (rgba img)) = Some k \<and> 32 \<le> k
        \<and> k - 32 < 8 * binaryToNumber (take 32 (lsbStream (rgba img))) \<longrightarrow>
        extractBits (rgba img) =
          Some (binaryToString (drop 32 (take k (lsbStream (rgba img))))))
   \<and> (fs imagePath = Some content \<and> loadImageData rt content = Some img
        \<and> extractBits (rgba img) = Some dataString
        \<and> JSON_parse rt dataString = Some extracted
        \<and> (selectResult extracted = Null \<or> isPlainObject (selectResult extracted)) \<longrightarrow>
        extractData rt fs imagePath = selectResult extracted)"
  by (simp add: extractData_def extractTry_def extractBits_decodeStream decodeStream_truncated)
     (simp add: decodeStream_def)

theorem extraction_faults_yield_null_witness:
  "(extractTry (exampleRuntime []) Map.empty uploadPath = Inl (Error ''readFileSync'')
      \<and> Map.empty uploadPath = None
      \<and> extractData (exampleRuntime []) Map.empty uploadPath = Null)
   \<and> ([uploadPath \<mapsto> [1, 2, 3]] uploadPath = Some [1, 2, 3]
      \<and> loadImageData (exampleRuntime []) [1, 2, 3] = None
      \<and> extractData (exampleRuntime []) [uploadPath \<mapsto> [1, 2, 3]] uploadPath = Null)
   \<and> (loadImageData (exampleRuntime []) (blackImage 2 2) =
        Some \<lparr>width = 2, height = 2, rgba = blackPixels 4\<rparr>
      \<and> findMarker 0 0 (lsbStream (blackPixels 4)) = None
      \<and> extractData (exampleRuntime []) [uploadPath \<mapsto> blackImage 2 2] uploadPath = Null)
   \<and> (loadImageData (exampleRuntime []) (craftedImage 6 1 endMarker) =
        Some \<lparr>width = 6, height = 1, rgba = craftedPixels 6 endMarker\<rparr>
      \<and> findMarker 0 0 (lsbStream (craftedPixels 6 endMarker)) = Some 0
      \<and> extractData (exampleRuntime []) [uploadPath \<mapsto> craftedImage 6 1 endMarker] uploadPath = Null)
   \<and> (extractBits (craftedPixels 22 (frame 100 (js ''{}''))) = Some (js ''{}'')
      \<and> JSON_parse (exampleRuntime []) (js ''{}'') = None
      \<and> extractData (exampleRuntime []) [uploadPath \<mapsto> craftedImage 22 1 (frame 100 (js ''{}''))]
          uploadPath = Null)
   \<and> (findMarker 0 0 (lsbStream (craftedPixels 22 (frame 100 (js ''{}'')))) = Some 48
      \<and> binaryToNumber (take 32 (lsbStream (craftedPixels 22 (frame 100 (js ''{}''))))) = 100
      \<and> extractBits (craftedPixels 22 (frame 100 (js ''{}''))) =
          Some (binaryToString
            (drop 32 (take 48 (lsbStream (craftedPixels 22 (frame 100 (js ''{}''))))))))
   \<and> (JSON_parse (exampleRuntime [(js ''{}'', Obj [])]) (js ''{}'') = Some (Obj [])
      \<and> isPlainObject (selectResult (Obj []))
      \<and> extractData (exampleRuntime [(js ''{}'', Obj [])])
          [uploadPath \<mapsto> craftedImage 22 1 (frame 100 (js ''{}''))] uploadPath = selectResult (Obj []))"
proof -
  let ?braces = "frame 100 (js ''{}'')"
  have thrown: "extractTry (exampleRuntime []) Map.empty uploadPath = Inl (Error ''readFileSync'')"
    by (simp add: extractTry_def)
  have missing: "Map.empty uploadPath = (None :: bytes option)"
    by simp
  have corrupt: "loadImageData (exampleRuntime []) [1, 2, 3] = None"
    by (simp add: rawDecode_def)
  have black: "loadImageData (exampleRuntime []) (blackImage 2 2) =
      Some \<lparr>width = 2, height = 2, rgba = blackPixels 4\<rparr>"
    using blackImage_decodes [of 2 2] by simp
  have no_marker: "findMarker 0 0 (lsbStream (blackPixels 4)) = None"
    by (simp add: lsbStream_blackPixels findMarker_zeros_None)
  have early: "loadImageData (exampleRuntime []) (craftedImage 6 1 endMarker) =
      Some \<lparr>width = 6, height = 1, rgba = craftedPixels 6 endMarker\<rparr>"
    using craftedImage_decodes [of 6 1 endMarker] by (simp add: endMarker_def)
  have at_start: "findMarker 0 0 (lsbStream (craftedPixels 6 endMarker)) = Some 0"
    using craftedPixels_stream(1) [of endMarker 6]
    by (simp add: findMarker_endMarker) (simp add: endMarker_def)
  have fits: "length ?braces \<le> 3 * 22"
    by (simp add: braces_frame_length)
  have crafted: "loadImageData rt' (craftedImage 22 1 ?braces) =
      Some \<lparr>width = 22, height = 1, rgba = craftedPixels 22 ?braces\<rparr>"
    if "loadImageData rt' = rawDecode" for rt'
    using craftedImage_decodes [of 22 1 ?braces] fits that by simp
  have bits: "extractBits (craftedPixels 22 ?braces) = Some (js ''{}'')"
    using craftedPixels_stream(1) [OF fits]
    by (simp add: extractBits_decodeStream braces_decoded)
  have rejected: "JSON_parse (exampleRuntime []) (js ''{}'') = None"
    and accepted: "JSON_parse (exampleRuntime [(js ''{}'', Obj [])]) (js ''{}'') = Some (Obj [])"
    by simp_all
  have object: "isPlainObject (selectResult (Obj []))"
    by (simp add: selectResult_def)
  have short: "(48::nat) - 32 < 8 * 100" and late: "(32::nat) \<le> 48"
    by simp_all
  note t = extraction_faults_yield_null
  have "extractData (exampleRuntime []) Map.empty uploadPath = Null"
    using t [where fs = Map.empty and imagePath = uploadPath and rt = "exampleRuntime []"
        and e = "Error ''readFileSync''"] thrown
    by simp
  moreover have "extractData (exampleRuntime []) [uploadPath \<mapsto> [1, 2, 3]] uploadPath = Null"
    using t [where fs = "[uploadPath \<mapsto> [1, 2, 3]]" and imagePath = uploadPath
        and content = "[1, 2, 3]" and rt = "exampleRuntime []"] corrupt
    by simp
  moreover have "extractData (exampleRuntime []) [uploadPath \<mapsto> blackImage 2 2] uploadPath = Null"
    using t [where fs = "[uploadPath \<mapsto> blackImage 2 2]" and imagePath = uploadPath
        and content = "blackImage 2 2" and rt = "exampleRuntime []"
        and img = "\<lparr>width = 2, height = 2, rgba = blackPixels 4\<rparr>"] black no_marker
    by simp
  moreover have "extractData (exampleRuntime []) [uploadPath \<mapsto> craftedImage 6 1 endMarker]
      uploadPath = Null"
    using t [where fs = "[uploadPath \<mapsto> craftedImage 6 1 endMarker]" and imagePath = uploadPath
        and content = "craftedImage 6 1 endMarker" and rt = "exampleRuntime []"
        and img = "\<lparr>width = 6, height = 1, rgba = craftedPixels 6 endMarker\<rparr>" and k = 0]
      early at_start
    by simp
  moreover have "extractData (exampleRuntime []) [uploadPath \<mapsto> craftedImage 22 1 ?braces]
      uploadPath = Null"
    using t [where fs = "[uploadPath \<mapsto> craftedImage 22 1 ?braces]" and imagePath = uploadPath
        and content = "craftedImage 22 1 ?braces" and rt = "exampleRuntime []"
        and img = "\<lparr>width = 22, height = 1, rgba = craftedPixels 22 ?braces\<rparr>"
        and dataString = "js ''{}''"]
      crafted [of "exampleRuntime []"] bits rejected
    by simp
  moreover have "extractBits (craftedPixels 22 ?braces) =
      Some (binaryToString (drop 32 (take 48 (lsbStream (craftedPixels 22 ?braces)))))"
    using t [where img = "\<lparr>width = 22, height = 1, rgba = craftedPixels 22 ?braces\<rparr>"
        and k = 48]
      braces_marker braces_prefix short late
    by simp
  moreover have "extractData (exampleRuntime [(js ''{}'', Obj [])])
      [uploadPath \<mapsto> craftedImage 22 1 ?braces] uploadPath = selectResult (Obj [])"
    using t [where fs = "[uploadPath \<mapsto> craftedImage 22 1 ?braces]" and imagePath = uploadPath
        and content = "craftedImage 22 1 ?braces" and rt = "exampleRuntime [(js ''{}'', Obj [])]"
        and img = "\<lparr>width = 22, height = 1, rgba = craftedPixels 22 ?braces\<rparr>"
        and dataString = "js ''{}''" and extracted = "Obj []"]
      crafted [of "exampleRuntime [(js ''{}'', Obj [])]"] bits accepted object
    by simp
  ultimately show ?thesis
    using thrown missing corrupt black no_marker early at_start bits rejected accepted object
      braces_marker braces_prefix
    by simp
qed

text \<open>
  A frame whose length prefix says 100 characters and that holds two, \<open>{}\<close>: the two
  are decoded and parsed, and the result is the object, not \<open>null\<close>.
\<close>

theorem truncated_buffer_counterexample:
  "length (frame 100 (js ''{}'')) < 32 + 8 * 100 + 16
   \<and> lsbStream (craftedPixels 22 (frame 100 (js ''{}''))) = frame 100 (js ''{}'') @ [False, False]
   \<and> extractData (exampleRuntime [(js ''{}'', Obj [])])
         [uploadPath \<mapsto> craftedImage 22 1 (frame 100 (js ''{}''))] uploadPath = Obj []
   \<and> Obj [] \<noteq> Null"
proof -
  let ?bs = "frame 100 (js ''{}'')"
  have fits: "length ?bs \<le> 3 * 22"
    by (simp add: braces_frame_length)
  have "extractData (exampleRuntime [(js ''{}'', Obj [])])
      [uploadPath \<mapsto> craftedImage 22 1 ?bs] uploadPath = Obj []"
    using extractData_decodeStream
      [where fs = "[uploadPath \<mapsto> craftedImage 22 1 ?bs]" and imagePath = uploadPath
         and rt = "exampleRuntime [(js ''{}'', Obj [])]"
         and img = "\<lparr>width = 22, height = 1, rgba = craftedPixels 22 ?bs\<rparr>"]
      craftedImage_decodes [of 22 1 ?bs] fits
    by (simp add: braces_stream braces_decoded selectResult_def)
  with braces_stream show ?thesis
    by (simp add: braces_frame_length)
qed

end
